theory Spec2Isabelle
  imports Main
begin

section \<open>Values shared by the proxy functions\<close>

text \<open>
  A Go error reaches the proxy only through \<^verbatim>\<open>errors.Is\<close> against three sentinels
  (\<^verbatim>\<open>context.Canceled\<close>, \<^verbatim>\<open>context.DeadlineExceeded\<close>,
  \<^verbatim>\<open>circuitbreaker.ErrNotAllowed\<close>) and through its \<^verbatim>\<open>Error()\<close> text, so an
  error is the record of these four observations. A wrapped or joined error may answer
  true to several of them.
\<close>

record goerr =
  isCanceled :: bool
  isDeadlineExceeded :: bool
  isErrNotAllowed :: bool
  errText :: string

text \<open>
  \<^verbatim>\<open>http.Header\<close> is \<^verbatim>\<open>map[string][]string\<close>. A key can be present with a nil
  slice, which Go tells apart from an empty slice and from an absent key.
\<close>

datatype hval = NilSlice | Slice "string list"

type_synonym header = "string \<rightharpoonup> hval"

fun elems :: "hval \<Rightarrow> string list" where
  "elems NilSlice = []"
| "elems (Slice vs) = vs"

text \<open>\<^verbatim>\<open>Header.Set\<close>; every key the proxy passes is already in canonical MIME form.\<close>

definition header_Set :: "header \<Rightarrow> string \<Rightarrow> string \<Rightarrow> header" where
  "header_Set h k v = h(k \<mapsto> Slice [v])"

text \<open>\<^verbatim>\<open>strings.Join\<close>.\<close>

fun strings_Join :: "string list \<Rightarrow> string \<Rightarrow> string" where
  "strings_Join [] sep = []"
| "strings_Join [x] sep = x"
| "strings_Join (x # y # ys) sep = x @ sep @ strings_Join (y # ys) sep"

text \<open>\<^verbatim>\<open>strconv.Itoa\<close>: decimal digits, with a minus sign for a negative number.\<close>

fun digits :: "nat \<Rightarrow> string" where
  "digits n =
     (if n < 10 then [char_of (48 + n)]
      else digits (n div 10) @ [char_of (48 + n mod 10)])"

declare digits.simps [simp del]

definition Itoa :: "int \<Rightarrow> string" where
  "Itoa i = (if i < 0 then CHR ''-'' # digits (nat (- i)) else digits (nat i))"

datatype protocol = UNSPECIFIED | HTTP | GRPC

record request =
  RemoteAddr :: string
  Header :: header
  ReqBody :: string
  ProtoMajor :: int
  URL :: string

text \<open>
  A response body is an \<^verbatim>\<open>io.ReadCloser\<close>. What the proxy can observe of it is
  its bytes, whether \<^verbatim>\<open>Close\<close> has been called, and whether \<^verbatim>\<open>Close\<close> is a
  no-op (\<^verbatim>\<open>io.NopCloser\<close>, as the middleware responses use) or ends the stream, as
  the bodies of \<^verbatim>\<open>net/http\<close> transports do: there a \<^verbatim>\<open>Read\<close> after
  \<^verbatim>\<open>Close\<close> returns an error and no bytes.
\<close>

record body =
  content :: string
  closed :: bool
  nopCloser :: bool

definition body_Close :: "body \<Rightarrow> body" where
  "body_Close b = (if nopCloser b then b else b\<lparr>closed := True\<rparr>)"

record response =
  StatusCode :: int
  RespHeader :: header
  Body :: "body option"
  Trailer :: header

record endpoint =
  Path :: string
  Method :: string
  Host :: string
  Protocol :: protocol
  Stream :: bool
  Middlewares :: "string list"

section \<open>setXFFHeader\<close>

text \<open>
  \<^verbatim>\<open>net.SplitHostPort\<close> belongs to the standard library; the function takes it as the
  parameter \<open>splitHostPort\<close>, \<open>None\<close> standing for a non-nil error.
\<close>

definition setXFFHeader :: "(string \<Rightarrow> (string \<times> string) option) \<Rightarrow> request \<Rightarrow> request" where
  "setXFFHeader splitHostPort req =
     (case splitHostPort (RemoteAddr req) of
        None \<Rightarrow> req
      | Some (clientIP, port) \<Rightarrow>
          (let lookup = Header req ''X-Forwarded-For'';
               ok = (lookup \<noteq> None);
               prior = (case lookup of None \<Rightarrow> NilSlice | Some v \<Rightarrow> v);
               omit = (ok \<and> prior = NilSlice);
               clientIP' = (if length (elems prior) > 0
                            then strings_Join (elems prior) '', '' @ '', '' @ clientIP
                            else clientIP)
           in if \<not> omit
              then req\<lparr>Header := header_Set (Header req) ''X-Forwarded-For'' clientIP'\<rparr>
              else req))"

text \<open>The values already carried under X-Forwarded-For (none when the key is absent).\<close>

definition priorXFF :: "request \<Rightarrow> string list" where
  "priorXFF req = (case Header req ''X-Forwarded-For'' of None \<Rightarrow> [] | Some v \<Rightarrow> elems v)"

text \<open>A small address splitter for worked examples: host and port around the last colon.\<close>

definition splitLastColon :: "string \<Rightarrow> (string \<times> string) option" where
  "splitLastColon s =
     (if CHR '':'' \<in> set s
      then Some (rev (tl (dropWhile (\<lambda>c. c \<noteq> CHR '':'') (rev s))),
                 rev (takeWhile (\<lambda>c. c \<noteq> CHR '':'') (rev s)))
      else None)"

definition xffRequest :: request where
  "xffRequest = \<lparr>RemoteAddr = ''10.0.0.7:4711'',
                 Header = [''X-Forwarded-For'' \<mapsto> Slice [''1.1.1.1'', ''2.2.2.2'']],
                 ReqBody = ''ok'', ProtoMajor = 1, URL = ''/foo/bar''\<rparr>"

section \<open>Observable effects of a request handler\<close>

text \<open>
  The handler built by \<^verbatim>\<open>buildEndpoint\<close> acts on the outside world through calls:
  to the observer, the retry breaker, the transport, the selector finalizer and the log.
  A run of the handler is described by the list of these calls in the order they happen.
  Calls made inside the attempt loop carry the loop index \<open>i\<close> at which they are made;
  the index is bookkeeping of the model (the observer, for one, does not receive it).
\<close>

datatype done_info = DoneErr goerr | DoneReplyMD header

datatype event =
    Allow int "goerr option"
  | MarkSuccess int
  | MarkFailed int
  | HandleRetry int string
  | RoundTrip int bool
  | BodyClose int
  | HandleRequest int "goerr option"
  | HandleSentBytes int
  | HandleReceivedBytes int
  | HandleLatency
  | DoneFunc done_info
  | LogErrorf
  | Flush
  | DoOnResponse
  | DoOnFinish
  | RequestBodyClose

text \<open>
  \<open>Allow i r\<close> is \<^verbatim>\<open>retryBreaker.Allow()\<close> returning \<open>r\<close>, \<open>MarkSuccess\<close> and
  \<open>MarkFailed\<close> are the breaker's methods of these names, \<open>HandleRetry i l\<close> is
  \<^verbatim>\<open>observer.HandleRetry\<close> with state label \<open>l\<close>, \<open>RoundTrip i b\<close> is
  \<^verbatim>\<open>tripper.RoundTrip\<close> entered while \<^verbatim>\<open>reqOpts.LastAttempt\<close> is \<open>b\<close>,
  \<open>BodyClose\<close> is \<^verbatim>\<open>resp.Body.Close()\<close> inside the loop, and \<open>DoneFunc\<close> is
  \<^verbatim>\<open>reqOpts.DoneFunc\<close>.

  The state a handler run works on: the calls so far, the client's
  \<^verbatim>\<open>http.ResponseWriter\<close> (its header map, the \<^verbatim>\<open>WriteHeader\<close> calls and the bytes
  written), \<^verbatim>\<open>reqOpts.LastAttempt\<close>, and the handler's variables \<^verbatim>\<open>resp\<close> and
  \<^verbatim>\<open>err\<close>.
\<close>

record hstate =
  events :: "event list"
  WHeader :: header
  WStatus :: "int list"
  WBody :: string
  LastAttempt :: bool
  resp :: "response option"
  err :: "goerr option"

definition emit :: "event \<Rightarrow> hstate \<Rightarrow> hstate" where
  "emit ev s = s\<lparr>events := events s @ [ev]\<rparr>"

definition WriteHeader :: "int \<Rightarrow> hstate \<Rightarrow> hstate" where
  "WriteHeader code s = s\<lparr>WStatus := WStatus s @ [code]\<rparr>"

definition initial :: hstate where
  "initial = \<lparr>events = [], WHeader = Map.empty, WStatus = [], WBody = [],
              LastAttempt = False, resp = None, err = None\<rparr>"

section \<open>writeError\<close>

text \<open>
  \<^verbatim>\<open>status.ToGRPCCode\<close> comes from the kratos library and is the parameter
  \<open>toGRPCCode\<close>.
\<close>

definition writeError :: "(int \<Rightarrow> int) \<Rightarrow> endpoint \<Rightarrow> goerr \<Rightarrow> hstate \<Rightarrow> hstate" where
  "writeError toGRPCCode e er s =
     (let (statusCode, s1) =
            (if isCanceled er \<or> errText er = ''client disconnected'' then (499, s)
             else if isDeadlineExceeded er then (504, s)
             else (502, emit LogErrorf s));
          s2 = emit (HandleRequest statusCode (Some er)) s1
      in if Protocol e = GRPC
         then (let code = Itoa (toGRPCCode statusCode);
                   h1 = header_Set (WHeader s2) ''Content-Type'' ''application/grpc'';
                   h2 = header_Set h1 ''Grpc-Status'' code;
                   h3 = header_Set h2 ''Grpc-Message'' (errText er)
               in WriteHeader 200 (s2\<lparr>WHeader := h3\<rparr>))
         else WriteHeader statusCode s2)"

text \<open>
  The translation table of \<^verbatim>\<open>status.ToGRPCCode\<close> for the three statuses
  \<^verbatim>\<open>writeError\<close> produces (Canceled is 1, DeadlineExceeded 4, Unknown 2), for worked
  examples.
\<close>

definition grpcCodes :: "int \<Rightarrow> int" where
  "grpcCodes c = (if c = 499 then 1 else if c = 504 then 4 else 2)"

definition deadlineExceeded :: goerr where
  "deadlineExceeded = \<lparr>isCanceled = False, isDeadlineExceeded = True,
                        isErrNotAllowed = False, errText = ''context deadline exceeded''\<rparr>"

definition canceled :: goerr where
  "canceled = \<lparr>isCanceled = True, isDeadlineExceeded = False,
                isErrNotAllowed = False, errText = ''context canceled''\<rparr>"

definition plainError :: "string \<Rightarrow> goerr" where
  "plainError msg = \<lparr>isCanceled = False, isDeadlineExceeded = False,
                      isErrNotAllowed = False, errText = msg\<rparr>"

definition grpcEndpoint :: endpoint where
  "grpcEndpoint = \<lparr>Path = ''/svc/Call'', Method = ''POST'', Host = [], Protocol = GRPC,
                    Stream = False, Middlewares = []\<rparr>"

definition httpEndpoint :: endpoint where
  "httpEndpoint = \<lparr>Path = ''/foo/bar'', Method = ''GET'', Host = [], Protocol = HTTP,
                    Stream = False, Middlewares = []\<rparr>"

text \<open>The status the three cases of the claim assign to an error, first match first.\<close>

definition mappedStatus :: "goerr \<Rightarrow> int" where
  "mappedStatus er =
     (if isCanceled er \<or> errText er = ''client disconnected'' then 499
      else if isDeadlineExceeded er then 504 else 502)"

section \<open>The request handler of buildEndpoint\<close>

subsection \<open>What a request meets\<close>

text \<open>
  What lies outside the handler answers as the fields of \<open>env\<close> say, indexed by the
  loop index where the answer can change between attempts: the feature gate
  \<^verbatim>\<open>retryFeature.Enabled()\<close>, the breaker's \<^verbatim>\<open>Allow()\<close>, \<^verbatim>\<open>ctx.Err()\<close>, the
  middleware-wrapped transport (which sees \<^verbatim>\<open>reqOpts.LastAttempt\<close>),
  \<^verbatim>\<open>judgeRetryRequired\<close> with the endpoint's conditions, \<^verbatim>\<open>io.ReadAll\<close> of the
  request body, the client connection (\<open>writeFault = Some (n, e)\<close>: it takes \<open>n\<close> bytes
  and then fails with \<open>e\<close>), whether the writer is an \<^verbatim>\<open>http.Flusher\<close>, and the
  library functions \<^verbatim>\<open>status.ToGRPCCode\<close> and \<^verbatim>\<open>net.SplitHostPort\<close>.
\<close>

record env =
  retryEnabled :: "int \<Rightarrow> bool"
  allowResult :: "int \<Rightarrow> goerr option"
  ctxErr :: "int \<Rightarrow> goerr option"
  roundTrip :: "int \<Rightarrow> bool \<Rightarrow> goerr + response"
  judgeRetryRequired :: "response \<Rightarrow> bool"
  readAllErr :: "goerr option"
  writeFault :: "(nat \<times> goerr) option"
  isFlusher :: bool
  toGRPCCode :: "int \<Rightarrow> int"
  splitHostPort :: "string \<Rightarrow> (string \<times> string) option"

subsection \<open>splitRetryMetricsHandler and the mark closures\<close>

definition success :: "int \<Rightarrow> hstate \<Rightarrow> hstate" where
  "success i s = (if i \<le> 0 then s else emit (HandleRetry i ''true'') s)"

definition failed :: "int \<Rightarrow> goerr \<Rightarrow> hstate \<Rightarrow> hstate" where
  "failed i er s =
     (if i \<le> 0 then s
      else if isCanceled er then s
      else emit (HandleRetry i ''false'') s)"

definition breaker :: "int \<Rightarrow> hstate \<Rightarrow> hstate" where
  "breaker i s = (if i \<le> 0 then s else emit (HandleRetry i ''breaker'') s)"

definition splitRetryMetricsHandler ::
  "(int \<Rightarrow> hstate \<Rightarrow> hstate) \<times> (int \<Rightarrow> goerr \<Rightarrow> hstate \<Rightarrow> hstate) \<times> (int \<Rightarrow> hstate \<Rightarrow> hstate)" where
  "splitRetryMetricsHandler = (success, failed, breaker)"

definition markSuccess :: "int \<Rightarrow> hstate \<Rightarrow> hstate" where
  "markSuccess i s =
     (let markSuccessStat = fst splitRetryMetricsHandler;
          s1 = markSuccessStat i s
      in if i > 0 then emit (MarkSuccess i) s1 else s1)"

definition markFailed :: "int \<Rightarrow> goerr \<Rightarrow> hstate \<Rightarrow> hstate" where
  "markFailed i er s =
     (let markFailedStat = fst (snd splitRetryMetricsHandler);
          s1 = markFailedStat i er s
      in if i > 0 then emit (MarkFailed i) s1 else s1)"

definition markBreaker :: "int \<Rightarrow> hstate \<Rightarrow> hstate" where
  "markBreaker i s =
     (let markBreakerStat = snd (snd splitRetryMetricsHandler) in markBreakerStat i s)"

subsection \<open>The attempt loop\<close>

datatype ctl = Continue | Break | Panic

definition assertionFailed :: goerr where
  "assertionFailed = \<lparr>isCanceled = False, isDeadlineExceeded = False,
                       isErrNotAllowed = False, errText = ''assertion failed''\<rparr>"

text \<open>
  The head of the loop body (\<^verbatim>\<open>if i > 0 { ... }\<close>). The \<^verbatim>\<open>err\<close> bound by
  \<^verbatim>\<open>if err := retryBreaker.Allow()\<close> is local to that statement: the handler's own
  \<^verbatim>\<open>err\<close> keeps the value of the previous iteration.
\<close>

definition gate :: "env \<Rightarrow> int \<Rightarrow> hstate \<Rightarrow> ctl \<times> hstate" where
  "gate en i s =
     (if i > 0 then
        (if \<not> retryEnabled en i then (Break, s)
         else (case allowResult en i of
                 Some er \<Rightarrow>
                   (Break, (if isErrNotAllowed er then markBreaker i (emit (Allow i (Some er)) s)
                            else markFailed i er (emit (Allow i (Some er)) s)))
               | None \<Rightarrow> (Continue, emit (Allow i None) s)))
      else (Continue, s))"

text \<open>
  The rest of the loop body. \<^verbatim>\<open>resp.Body.Close()\<close> on a response without a body is a
  call on a nil interface and panics.
\<close>

definition attempt :: "env \<Rightarrow> int \<Rightarrow> int \<Rightarrow> hstate \<Rightarrow> ctl \<times> hstate" where
  "attempt en attempts i s =
     (let s1 = (if i + 1 \<ge> attempts then s\<lparr>LastAttempt := True\<rparr> else s)
      in case ctxErr en i of
           Some er \<Rightarrow> (Break, markFailed i er (s1\<lparr>err := Some er\<rparr>))
         | None \<Rightarrow>
             (let s2 = emit (RoundTrip i (LastAttempt s1)) (s1\<lparr>err := None\<rparr>)
              in case roundTrip en i (LastAttempt s1) of
                   Inl er \<Rightarrow>
                     (Continue, emit LogErrorf (markFailed i er (s2\<lparr>resp := None, err := Some er\<rparr>)))
                 | Inr r \<Rightarrow>
                     (let s3 = s2\<lparr>resp := Some r, err := None\<rparr>
                      in if \<not> judgeRetryRequired en r
                         then (Break, markSuccess i (s3\<lparr>LastAttempt := True\<rparr>))
                         else (let s4 = markFailed i assertionFailed s3
                               in case Body r of
                                    None \<Rightarrow> (Panic, s4)
                                  | Some b \<Rightarrow>
                                      (Continue,
                                       emit (BodyClose i)
                                         (s4\<lparr>resp := Some (r\<lparr>Body := Some (body_Close b)\<rparr>)\<rparr>))))))"

function attemptLoop :: "env \<Rightarrow> int \<Rightarrow> int \<Rightarrow> hstate \<Rightarrow> ctl \<times> hstate" where
  "attemptLoop en attempts i s =
     (if i < attempts then
        (case gate en i s of
           (Continue, s1) \<Rightarrow>
             (case attempt en attempts i s1 of
                (Continue, s2) \<Rightarrow> attemptLoop en attempts (i + 1) s2
              | (c, s2) \<Rightarrow> (c, s2))
         | (c, s1) \<Rightarrow> (c, s1))
      else (Continue, s))"
  by pat_completeness auto
termination
  by (relation "measure (\<lambda>(en, attempts, i, s). nat (attempts - i))") auto

declare attemptLoop.simps [simp del]

subsection \<open>Relaying the response\<close>

definition errReadOnClosedBody :: goerr where
  "errReadOnClosedBody = \<lparr>isCanceled = False, isDeadlineExceeded = False,
                           isErrNotAllowed = False,
                           errText = ''http: read on closed response body''\<rparr>"

text \<open>
  \<^verbatim>\<open>io.Copy(w, resp.Body)\<close> and the flushing copier of \<^verbatim>\<open>copyNoBuffering\<close> move the
  same bytes; they differ in when the writer is flushed, which the model does not record.
  The result is the bytes that reached the client and the error, if any.
\<close>

definition copyBody :: "env \<Rightarrow> body \<Rightarrow> string \<times> goerr option" where
  "copyBody en b =
     (if closed b \<and> \<not> nopCloser b then ([], Some errReadOnClosedBody)
      else (case writeFault en of
              None \<Rightarrow> (content b, None)
            | Some (n, er) \<Rightarrow>
                if n < length (content b) then (take n (content b), Some er)
                else (content b, None)))"

definition getReplyMD :: "endpoint \<Rightarrow> response \<Rightarrow> header" where
  "getReplyMD ep r = (if Protocol ep = GRPC then Trailer r else RespHeader r)"

text \<open>\<^verbatim>\<open>Header.Get\<close>: the first value under the key, or the empty string.\<close>

definition header_Get :: "header \<Rightarrow> string \<Rightarrow> string" where
  "header_Get h k = (case h k of Some (Slice (v # vs)) \<Rightarrow> v | _ \<Rightarrow> [])"

text \<open>
  The loop \<^verbatim>\<open>for k, v := range resp.Trailer { headers[http.TrailerPrefix+k] = v }\<close>;
  \<^verbatim>\<open>http.TrailerPrefix\<close> is \<^verbatim>\<open>"Trailer:"\<close>.
\<close>

definition addTrailers :: "header \<Rightarrow> header \<Rightarrow> header" where
  "addTrailers tr h =
     (\<lambda>k. if take 8 k = ''Trailer:'' \<and> tr (drop 8 k) \<noteq> None then tr (drop 8 k) else h k)"

definition doCopyBody :: "env \<Rightarrow> endpoint \<Rightarrow> response \<Rightarrow> hstate \<Rightarrow> goerr option \<times> hstate" where
  "doCopyBody en e r s =
     (case Body r of
        None \<Rightarrow> (None, s)
      | Some b \<Rightarrow>
          (let (out, cerr) = copyBody en b;
               sent = int (length out);
               s1 = s\<lparr>WBody := WBody s @ out\<rparr>
           in case cerr of
                Some er \<Rightarrow>
                  (Some er,
                   emit LogErrorf (emit (DoneFunc (DoneErr er)) (emit (HandleSentBytes sent) s1)))
              | None \<Rightarrow>
                  (let s2 = emit (DoneFunc (DoneReplyMD (getReplyMD e r)))
                              (emit (HandleSentBytes sent) s1)
                   in (None, s2\<lparr>WHeader := addTrailers (Trailer r) (WHeader s2)\<rparr>))))"

definition relay :: "env \<Rightarrow> endpoint \<Rightarrow> request \<Rightarrow> response \<Rightarrow> hstate \<Rightarrow> hstate" where
  "relay en e req r s =
     (let s1 = WriteHeader (StatusCode r) (s\<lparr>WHeader := WHeader s ++ RespHeader r\<rparr>);
          s2 = (if Protocol e = GRPC \<and> ProtoMajor req = 2 \<and>
                   header_Get (RespHeader r) ''Grpc-Status'' = [] \<and> isFlusher en
                then emit Flush s1 else s1);
          (cerr, s3) = doCopyBody en e r s2
      in emit (HandleRequest (StatusCode r) cerr) s3)"

subsection \<open>The handler\<close>

text \<open>
  What \<^verbatim>\<open>httputil.ReverseProxy.ServeHTTP\<close> does with the three hooks the stream
  subroutine hands it is the library's business: \<open>rpCalls\<close> is the sequence of its calls
  to the transport, the error handler and the response modifier.
\<close>

datatype rpcall = CallTransport | CallErrorHandler goerr | CallModifyResponse response

definition rpStep :: "env \<Rightarrow> endpoint \<Rightarrow> rpcall \<Rightarrow> hstate \<Rightarrow> hstate" where
  "rpStep en e c s =
     (case c of
        CallTransport \<Rightarrow> emit (RoundTrip 0 (LastAttempt s)) s
      | CallErrorHandler er \<Rightarrow>
          writeError (toGRPCCode en) e er (markFailed 0 er (emit (DoneFunc (DoneErr er)) s))
      | CallModifyResponse r \<Rightarrow>
          emit DoOnResponse
            (emit (HandleRequest (StatusCode r) None)
               (markSuccess 0 (emit (DoneFunc (DoneReplyMD (getReplyMD e r))) s))))"

definition proxyStream :: "env \<Rightarrow> endpoint \<Rightarrow> rpcall list \<Rightarrow> hstate \<Rightarrow> hstate" where
  "proxyStream en e rpCalls s =
     (let s1 = s\<lparr>LastAttempt := True\<rparr>;
          s2 = fold (rpStep en e) rpCalls s1
      in emit DoOnFinish (emit RequestBodyClose s2))"

text \<open>
  The handler returned by \<^verbatim>\<open>buildEndpoint\<close>, for an endpoint \<open>e\<close> whose retry
  strategy has \<open>attempts\<close> attempts. The result tells whether the run ended in a panic,
  and the state it left. \<^verbatim>\<open>middleware.NewRequestOptions\<close> starts the request with
  \<^verbatim>\<open>LastAttempt\<close> false; the deferred \<^verbatim>\<open>observer.HandleLatency\<close> runs on every
  exit.
\<close>

definition handler ::
  "env \<Rightarrow> endpoint \<Rightarrow> int \<Rightarrow> rpcall list \<Rightarrow> request \<Rightarrow> hstate \<Rightarrow> bool \<times> request \<times> hstate" where
  "handler en e attempts rpCalls req0 s =
     (let req = setXFFHeader (splitHostPort en) req0;
          s0 = s\<lparr>LastAttempt := False, resp := None, err := None\<rparr>
      in if Stream e then (False, req, emit HandleLatency (proxyStream en e rpCalls s0))
         else
           (case readAllErr en of
              Some er \<Rightarrow> (False, req, emit HandleLatency (writeError (toGRPCCode en) e er s0))
            | None \<Rightarrow>
                (let s1 = emit (HandleReceivedBytes (int (length (ReqBody req)))) s0;
                     (c, s2) = attemptLoop en attempts 0 s1
                 in if c = Panic then (True, req, emit HandleLatency s2)
                    else (case err s2 of
                            Some er \<Rightarrow>
                              (False, req, emit HandleLatency (writeError (toGRPCCode en) e er s2))
                          | None \<Rightarrow>
                              (case resp s2 of
                                 None \<Rightarrow> (True, req, emit HandleLatency s2)
                               | Some r \<Rightarrow>
                                   (False, req, emit HandleLatency (relay en e req r s2)))))))"

subsection \<open>Reading a run\<close>

text \<open>The calls of one kind in a run, and the loop indices of the retry metric events.\<close>

fun isRetry :: "event \<Rightarrow> bool" where
  "isRetry (HandleRetry i l) = True"
| "isRetry _ = False"

fun isAllow :: "event \<Rightarrow> bool" where
  "isAllow (Allow i r) = True"
| "isAllow _ = False"

fun isRoundTrip :: "event \<Rightarrow> bool" where
  "isRoundTrip (RoundTrip i b) = True"
| "isRoundTrip _ = False"

fun isDoneFunc :: "event \<Rightarrow> bool" where
  "isDoneFunc (DoneFunc d) = True"
| "isDoneFunc _ = False"

fun isBreakerCall :: "event \<Rightarrow> bool" where
  "isBreakerCall (Allow i r) = True"
| "isBreakerCall (MarkSuccess i) = True"
| "isBreakerCall (MarkFailed i) = True"
| "isBreakerCall _ = False"

fun retryIndex :: "event \<Rightarrow> int list" where
  "retryIndex (HandleRetry i l) = [i]"
| "retryIndex _ = []"

definition retryIndices :: "event list \<Rightarrow> int list" where
  "retryIndices tr = concat (map retryIndex tr)"

fun roundTripIndex :: "event \<Rightarrow> int list" where
  "roundTripIndex (RoundTrip i b) = [i]"
| "roundTripIndex _ = []"

definition roundTripIndices :: "event list \<Rightarrow> int list" where
  "roundTripIndices tr = concat (map roundTripIndex tr)"

text \<open>The events of a run of the handler on a fresh writer.\<close>

definition run :: "env \<Rightarrow> endpoint \<Rightarrow> int \<Rightarrow> rpcall list \<Rightarrow> request \<Rightarrow> event list" where
  "run en e attempts rpCalls req = events (snd (snd (handler en e attempts rpCalls req initial)))"

text \<open>
  What the three classifications of a retry amount to in calls: a failed retry at index
  \<open>i\<close> is the failed metric (unless the error is context-canceled) and the breaker's
  \<^verbatim>\<open>MarkFailed\<close>, a successful one the success metric and \<^verbatim>\<open>MarkSuccess\<close>, a
  breaker-tripped one the breaker metric alone. Index 0 is not a retry and has none.
\<close>

definition failedCalls :: "int \<Rightarrow> goerr \<Rightarrow> event list" where
  "failedCalls i er =
     (if i > 0 then (if isCanceled er then [] else [HandleRetry i ''false'']) @ [MarkFailed i]
      else [])"

definition successCalls :: "int \<Rightarrow> event list" where
  "successCalls i = (if i > 0 then [HandleRetry i ''true'', MarkSuccess i] else [])"

definition breakerCalls :: "int \<Rightarrow> event list" where
  "breakerCalls i = (if i > 0 then [HandleRetry i ''breaker''] else [])"

definition refusalCalls :: "int \<Rightarrow> goerr \<Rightarrow> event list" where
  "refusalCalls i er = (if isErrNotAllowed er then breakerCalls i else failedCalls i er)"

text \<open>
  \<open>inLoop lo n ev\<close>: the call \<open>ev\<close> can come from loop indices \<open>lo\<close> up to \<open>n - 1\<close>;
  a breaker call or a retry metric only from an index above 0.
\<close>

fun inLoop :: "int \<Rightarrow> int \<Rightarrow> event \<Rightarrow> bool" where
  "inLoop lo n (Allow j r) = (lo \<le> j \<and> 0 < j \<and> j < n)"
| "inLoop lo n (MarkSuccess j) = (lo \<le> j \<and> 0 < j \<and> j < n)"
| "inLoop lo n (MarkFailed j) = (lo \<le> j \<and> 0 < j \<and> j < n)"
| "inLoop lo n (HandleRetry j l) = (lo \<le> j \<and> 0 < j \<and> j < n)"
| "inLoop lo n (RoundTrip j b) = (lo \<le> j \<and> j < n \<and> (b \<longleftrightarrow> j + 1 \<ge> n))"
| "inLoop lo n (BodyClose j) = (lo \<le> j \<and> j < n)"
| "inLoop lo n LogErrorf = True"
| "inLoop lo n ev = False"

text \<open>
  \<open>gated seen tr\<close>: reading \<open>tr\<close> from the left, every transport call at an index above
  0 comes after an \<^verbatim>\<open>Allow()\<close> at that index that returned nil (\<open>seen\<close> holds the
  indices granted so far).
\<close>

fun gated :: "int set \<Rightarrow> event list \<Rightarrow> bool" where
  "gated seen [] = True"
| "gated seen (Allow i r # tr) = gated (if r = None then insert i seen else seen) tr"
| "gated seen (RoundTrip i b # tr) = ((i > 0 \<longrightarrow> i \<in> seen) \<and> gated seen tr)"
| "gated seen (ev # tr) = gated seen tr"

text \<open>
  \<open>quiet ev\<close>: the call is no transport call, no breaker call and no retry metric.
  \<open>abandoned tr\<close>: an \<^verbatim>\<open>Allow()\<close> that returns an error at index \<open>i\<close> is followed by
  the calls of its classification (breaker-tripped for \<^verbatim>\<open>ErrNotAllowed\<close>, failed
  otherwise) and after them by quiet calls only.
\<close>

definition quiet :: "event \<Rightarrow> bool" where
  "quiet ev = (\<not> isRoundTrip ev \<and> \<not> isBreakerCall ev \<and> \<not> isRetry ev)"

fun abandoned :: "event list \<Rightarrow> bool" where
  "abandoned [] = True"
| "abandoned (Allow i (Some er) # tr) =
     (take (length (refusalCalls i er)) tr = refusalCalls i er \<and>
      list_all quiet (drop (length (refusalCalls i er)) tr))"
| "abandoned (ev # tr) = abandoned tr"

text \<open>
  The shapes the calls of the loop can take from index \<open>i\<close> on, one rule for each way
  through the loop body.
\<close>

definition allowNone :: "int \<Rightarrow> event list" where
  "allowNone i = (if i > 0 then [Allow i None] else [])"

inductive loopTrace :: "int \<Rightarrow> int \<Rightarrow> event list \<Rightarrow> bool" where
  finished: "loopTrace i n []"
| refused: "0 < i \<Longrightarrow> i < n \<Longrightarrow> loopTrace i n (Allow i (Some er) # refusalCalls i er)"
| expired: "i < n \<Longrightarrow> loopTrace i n (allowNone i @ failedCalls i er)"
| succeeded: "i < n \<Longrightarrow> loopTrace i n (allowNone i @ RoundTrip i (i + 1 \<ge> n) # successCalls i)"
| panicked:
    "i < n \<Longrightarrow> loopTrace i n (allowNone i @ RoundTrip i (i + 1 \<ge> n) # failedCalls i assertionFailed)"
| transportError:
    "i < n \<Longrightarrow> loopTrace (i + 1) n rest \<Longrightarrow>
       loopTrace i n (allowNone i @ RoundTrip i (i + 1 \<ge> n) # failedCalls i er @ LogErrorf # rest)"
| retriable:
    "i < n \<Longrightarrow> loopTrace (i + 1) n rest \<Longrightarrow>
       loopTrace i n (allowNone i @ RoundTrip i (i + 1 \<ge> n) #
                      failedCalls i assertionFailed @ BodyClose i # rest)"


text \<open>The \<^verbatim>\<open>DoneFunc\<close> call of a relayed response: none when it has no body.\<close>

definition relayDone :: "env \<Rightarrow> endpoint \<Rightarrow> response \<Rightarrow> event list" where
  "relayDone en e r =
     (case Body r of
        None \<Rightarrow> []
      | Some b \<Rightarrow>
          (case snd (copyBody en b) of
             Some er \<Rightarrow> [DoneFunc (DoneErr er)]
           | None \<Rightarrow> [DoneFunc (DoneReplyMD (getReplyMD e r))]))"

subsection \<open>Sample requests\<close>

text \<open>
  An upstream that answers 200, one that answers 500 with a body read from the network,
  the retry condition "status 500 to 504", and surroundings in which nothing else fails.
\<close>

definition ok200 :: response where
  "ok200 = \<lparr>StatusCode = 200, RespHeader = [''Testkey'' \<mapsto> Slice [''testValue'']],
            Body = Some \<lparr>content = ''ok'', closed = False, nopCloser = False\<rparr>,
            Trailer = Map.empty\<rparr>"

definition busy500 :: response where
  "busy500 = \<lparr>StatusCode = 500, RespHeader = [''Content-Length'' \<mapsto> Slice [''4'']],
              Body = Some \<lparr>content = ''oops'', closed = False, nopCloser = False\<rparr>,
              Trailer = Map.empty\<rparr>"

definition errNotAllowed :: goerr where
  "errNotAllowed = \<lparr>isCanceled = False, isDeadlineExceeded = False, isErrNotAllowed = True,
                     errText = ''circuitbreaker: not allowed for circuit open''\<rparr>"

definition calm :: env where
  "calm = \<lparr>retryEnabled = (\<lambda>i. True), allowResult = (\<lambda>i. None), ctxErr = (\<lambda>i. None),
           roundTrip = (\<lambda>i b. Inr ok200),
           judgeRetryRequired = (\<lambda>r. 500 \<le> StatusCode r \<and> StatusCode r \<le> 504),
           readAllErr = None, writeFault = None, isFlusher = True,
           toGRPCCode = grpcCodes, splitHostPort = splitLastColon\<rparr>"

text \<open>The upstream refuses every connection and the breaker trips at index 2.\<close>

definition tripped :: env where
  "tripped = calm\<lparr>roundTrip := (\<lambda>i b. Inl (plainError ''connection refused'')),
                  allowResult := (\<lambda>i. if i = 2 then Some errNotAllowed else None)\<rparr>"

text \<open>The upstream answers 500 every time.\<close>

definition failing :: env where
  "failing = calm\<lparr>roundTrip := (\<lambda>i b. Inr busy500)\<rparr>"


section \<open>The stream body tracker of the middleware package\<close>

text \<open>
  \<^verbatim>\<open>MetaStreamContext\<close> counts the bodies wrapped for a stream (\<^verbatim>\<open>bodiesCount\<close>) and
  the close signals received (\<^verbatim>\<open>closedCount\<close>), and guards the \<^verbatim>\<open>OnFinish\<close> hooks
  with \<^verbatim>\<open>finishOnce\<close>. The counters are 32-bit in the source; a stream wraps at most
  its request and its response body, so they are modelled as integers. \<open>finishOnce\<close>
  tells whether the \<^verbatim>\<open>sync.Once\<close> has run, \<open>finished\<close> counts the runs of the hook
  list. Each wrapped body has a \<^verbatim>\<open>doneOnce\<close> of its own; \<open>doneOnce\<close> lists them in the
  order of wrapping, and a body is named by its position. Calls are taken one at a time,
  each running to its end.
\<close>

record MetaStreamContext =
  bodiesCount :: int
  closedCount :: int
  finishOnce :: bool
  finished :: nat

record tracker =
  ctxValue :: MetaStreamContext
  doneOnce :: "bool list"

definition RegisterBody :: "MetaStreamContext \<Rightarrow> MetaStreamContext" where
  "RegisterBody s = s\<lparr>bodiesCount := bodiesCount s + 1\<rparr>"

definition notifyBodyClosed :: "MetaStreamContext \<Rightarrow> bool \<times> MetaStreamContext" where
  "notifyBodyClosed s =
     (let s' = s\<lparr>closedCount := closedCount s + 1\<rparr>;
          closed = closedCount s';
          expected = bodiesCount s'
      in (closed \<ge> expected \<and> expected > 0, s'))"

text \<open>\<^verbatim>\<open>finishOnce.Do\<close> of the function that runs the \<^verbatim>\<open>OnFinish\<close> hooks.\<close>

definition finishOnceDo :: "MetaStreamContext \<Rightarrow> MetaStreamContext" where
  "finishOnceDo s = (if finishOnce s then s else s\<lparr>finishOnce := True, finished := finished s + 1\<rparr>)"

text \<open>
  \<^verbatim>\<open>WrapReadCloserBody\<close> and \<^verbatim>\<open>WrapReadWriteCloserBody\<close> both register the body and
  return a wrapper with a fresh \<^verbatim>\<open>doneOnce\<close>; their \<^verbatim>\<open>Close\<close> methods are the same
  but for the body they close underneath.
\<close>

definition WrapBody :: "tracker \<Rightarrow> tracker" where
  "WrapBody t = t\<lparr>ctxValue := RegisterBody (ctxValue t), doneOnce := doneOnce t @ [False]\<rparr>"

definition Close :: "nat \<Rightarrow> tracker \<Rightarrow> tracker" where
  "Close k t =
     (if k < length (doneOnce t) then
        (if doneOnce t ! k then t
         else (let (allClosed, s) = notifyBodyClosed (ctxValue t)
               in t\<lparr>ctxValue := (if allClosed then finishOnceDo s else s),
                    doneOnce := (doneOnce t)[k := True]\<rparr>))
      else t)"

datatype call = Wrap | CloseBody nat

fun step :: "call \<Rightarrow> tracker \<Rightarrow> tracker" where
  "step Wrap t = WrapBody t"
| "step (CloseBody k) t = Close k t"

definition fresh :: tracker where
  "fresh = \<lparr>ctxValue = \<lparr>bodiesCount = 0, closedCount = 0, finishOnce = False, finished = 0\<rparr>,
            doneOnce = []\<rparr>"

text \<open>The tracker after a sequence of calls on a new stream context.\<close>

definition after :: "call list \<Rightarrow> tracker" where
  "after calls = fold step calls fresh"

text \<open>
  What holds of a tracker however it was reached: the counters count the wrapped bodies and
  those closed, the hooks have run just when \<open>finishOnce\<close> is set, and it is set as
  soon as every registered body is closed.
\<close>

definition tracked :: "tracker \<Rightarrow> bool" where
  "tracked t \<longleftrightarrow>
     bodiesCount (ctxValue t) = int (length (doneOnce t)) \<and>
     closedCount (ctxValue t) = int (length (filter id (doneOnce t))) \<and>
     finished (ctxValue t) = (if finishOnce (ctxValue t) then 1 else 0) \<and>
     (closedCount (ctxValue t) \<ge> bodiesCount (ctxValue t) \<and> bodiesCount (ctxValue t) > 0
        \<longrightarrow> finishOnce (ctxValue t))"

section \<open>Building endpoints and swapping the route table\<close>

subsection \<open>The retry breaker\<close>

text \<open>
  Modelled from the spec: the retry breaker, which is the SRE breaker of the aegis library
  and not part of the repository. It keeps success and failure counters and has two
  parameters, the success ratio threshold (a fraction, 4/5 for 0.8) and the minimum request
  count. \<^verbatim>\<open>Allow()\<close> returns nil or \<^verbatim>\<open>ErrNotAllowed\<close>; it can refuse only when at
  least \<open>request\<close> outcomes are recorded and the successes fall short of the ratio, and
  then refuses at random: \<open>draw\<close> is the outcome of the draw. The sliding time window,
  which lets old outcomes expire, is left out.
\<close>

record sreBreaker =
  successNum :: nat
  successDen :: nat
  request :: nat
  accepts :: nat
  total :: nat

definition NewBreaker :: "nat \<Rightarrow> nat \<Rightarrow> nat \<Rightarrow> sreBreaker" where
  "NewBreaker num den req =
     \<lparr>successNum = num, successDen = den, request = req, accepts = 0, total = 0\<rparr>"

definition sreAllow :: "bool \<Rightarrow> sreBreaker \<Rightarrow> goerr option" where
  "sreAllow draw b =
     (if total b < request b \<or> total b * successNum b < successDen b * accepts b then None
      else if draw \<and> total b * successNum b > successDen b * accepts b then Some errNotAllowed
      else None)"

definition sreMarkSuccess :: "sreBreaker \<Rightarrow> sreBreaker" where
  "sreMarkSuccess b = b\<lparr>accepts := accepts b + 1, total := total b + 1\<rparr>"

definition sreMarkFailed :: "sreBreaker \<Rightarrow> sreBreaker" where
  "sreMarkFailed b = b\<lparr>total := total b + 1\<rparr>"

subsection \<open>The proxy and what it is built from\<close>

text \<open>
  A transport is the client of an endpoint, possibly under the built-in stream tripper and
  under middlewares; a client is named by its number in the order of creation and is its
  own closer. A middleware configuration is its name.
\<close>

datatype tripper = Client nat | StreamTripper tripper | Wrapped string tripper

text \<open>
  The outcomes of the middleware factory: a middleware, \<^verbatim>\<open>middleware.ErrNotFound\<close>,
  or any other error.
\<close>

datatype mwresult = Made | NotFound | Failed goerr

text \<open>
  What \<^verbatim>\<open>buildEndpoint\<close> returns on success: the handler, given by the endpoint it
  serves, its transport, the attempts of its retry strategy and its retry breaker (the
  position of the breaker among the breakers created so far), and the closer.
\<close>

record builtHandler =
  hEndpoint :: endpoint
  hTripper :: tripper
  hAttempts :: int
  retryBreaker :: nat

record route =
  rPath :: string
  rMethod :: string
  rHost :: string
  rHandler :: builtHandler
  rCloser :: nat

text \<open>
  The state \<^verbatim>\<open>Update\<close> works on: the live route table \<^verbatim>\<open>p.router\<close>, the number of
  clients the factory has made, the \<^verbatim>\<open>Close()\<close> calls made on clients, the breakers
  created by \<^verbatim>\<open>sre.NewBreaker\<close>, and the tables handed to \<^verbatim>\<open>tryCloseRouter\<close>, which
  closes them from a goroutine of its own.
\<close>

record pstate =
  router :: "route list"
  clients :: nat
  closedClients :: "nat list"
  breakers :: "sreBreaker list"
  retired :: "route list list"

text \<open>
  The parts of the proxy that are not in the repository's sources: the client factory
  (\<open>None\<close>: a client is made), the middleware factory, \<^verbatim>\<open>prepareRetryStrategy\<close> (of
  which the attempts matter here) and \<^verbatim>\<open>router.Handle\<close> of the mux, which can reject a
  route given those already registered.
\<close>

record benv =
  clientFactory :: "endpoint \<Rightarrow> goerr option"
  middlewareFactory :: "string \<Rightarrow> mwresult"
  prepareRetryStrategy :: "endpoint \<Rightarrow> goerr + int"
  routerHandle :: "route list \<Rightarrow> endpoint \<Rightarrow> goerr option"

datatype gateway = Gateway (Endpoints: "endpoint list") (GatewayMiddlewares: "string list")

definition closeOnError :: "nat \<Rightarrow> goerr option \<Rightarrow> pstate \<Rightarrow> pstate" where
  "closeOnError closer retError st =
     (case retError of
        None \<Rightarrow> st
      | Some er \<Rightarrow> st\<lparr>closedClients := closedClients st @ [closer]\<rparr>)"

text \<open>The loop of \<^verbatim>\<open>buildMiddleware\<close> runs from the last middleware to the first.\<close>

fun buildMiddlewareFrom :: "(string \<Rightarrow> mwresult) \<Rightarrow> string list \<Rightarrow> tripper \<Rightarrow> goerr + tripper" where
  "buildMiddlewareFrom f [] next = Inr next"
| "buildMiddlewareFrom f (m # ms) next =
     (case f m of
        Failed er \<Rightarrow> Inl er
      | NotFound \<Rightarrow> buildMiddlewareFrom f ms next
      | Made \<Rightarrow> buildMiddlewareFrom f ms (Wrapped m next))"

definition buildMiddleware :: "(string \<Rightarrow> mwresult) \<Rightarrow> string list \<Rightarrow> tripper \<Rightarrow> goerr + tripper" where
  "buildMiddleware f ms next = buildMiddlewareFrom f (rev ms) next"

text \<open>
  \<^verbatim>\<open>buildEndpoint\<close>. The deferred \<^verbatim>\<open>closeOnError(closer, &retError)\<close> runs on every
  return after the client is made.
\<close>

definition buildEndpoint ::
  "benv \<Rightarrow> endpoint \<Rightarrow> string list \<Rightarrow> pstate \<Rightarrow> (goerr + builtHandler \<times> nat) \<times> pstate" where
  "buildEndpoint b e ms st =
     (case clientFactory b e of
        Some er \<Rightarrow> (Inl er, st)
      | None \<Rightarrow>
          (let client = clients st;
               st1 = st\<lparr>clients := clients st + 1\<rparr>;
               closer = client;
               tripper = (if Stream e then StreamTripper (Client client) else Client client)
           in case buildMiddleware (middlewareFactory b) (Middlewares e) tripper of
                Inl er \<Rightarrow> (Inl er, closeOnError closer (Some er) st1)
              | Inr tripper1 \<Rightarrow>
                  (case buildMiddleware (middlewareFactory b) ms tripper1 of
                     Inl er \<Rightarrow> (Inl er, closeOnError closer (Some er) st1)
                   | Inr tripper2 \<Rightarrow>
                       (case prepareRetryStrategy b e of
                          Inl er \<Rightarrow> (Inl er, closeOnError closer (Some er) st1)
                        | Inr n \<Rightarrow>
                            (let st2 = st1\<lparr>breakers := breakers st1 @ [NewBreaker 4 5 10]\<rparr>;
                                 h = \<lparr>hEndpoint = e, hTripper = tripper2, hAttempts = n,
                                      retryBreaker = length (breakers st1)\<rparr>
                             in (Inr (h, closer), closeOnError closer None st2))))))"

text \<open>
  The loop of \<^verbatim>\<open>Update\<close> over the endpoints: \<open>routes\<close> is the new router so far,
  \<open>defers\<close> the closers of the deferred \<^verbatim>\<open>closeOnError\<close> calls, the latest first.
\<close>

fun buildAll ::
  "benv \<Rightarrow> string list \<Rightarrow> endpoint list \<Rightarrow> route list \<Rightarrow> nat list \<Rightarrow> pstate \<Rightarrow>
     goerr option \<times> route list \<times> nat list \<times> pstate" where
  "buildAll b ms [] routes defers st = (None, routes, defers, st)"
| "buildAll b ms (e # es) routes defers st =
     (case buildEndpoint b e ms st of
        (Inl er, st1) \<Rightarrow> (Some er, routes, defers, st1)
      | (Inr (h, closer), st1) \<Rightarrow>
          (case routerHandle b routes e of
             Some er \<Rightarrow> (Some er, routes, closer # defers, st1)
           | None \<Rightarrow>
               buildAll b ms es
                 (routes @ [\<lparr>rPath = Path e, rMethod = Method e, rHost = Host e,
                             rHandler = h, rCloser = closer\<rparr>])
                 (closer # defers) st1))"

definition runDefers :: "nat list \<Rightarrow> goerr option \<Rightarrow> pstate \<Rightarrow> pstate" where
  "runDefers defers retError st = fold (\<lambda>closer. closeOnError closer retError) defers st"

definition tryCloseRouter :: "route list \<Rightarrow> pstate \<Rightarrow> pstate" where
  "tryCloseRouter old st = st\<lparr>retired := retired st @ [old]\<rparr>"

definition Update :: "benv \<Rightarrow> gateway \<Rightarrow> pstate \<Rightarrow> goerr option \<times> pstate" where
  "Update b c st =
     (case buildAll b (GatewayMiddlewares c) (Endpoints c) [] [] st of
        (Some er, routes, defers, st1) \<Rightarrow> (Some er, runDefers defers (Some er) st1)
      | (None, routes, defers, st1) \<Rightarrow>
          (let old = router st1;
               st2 = tryCloseRouter old (st1\<lparr>router := routes\<rparr>)
           in (None, runDefers defers None st2)))"

subsection \<open>A handler and its breaker\<close>

text \<open>
  The breaker calls of a request served by a handler act on the handler's own breaker:
  \<open>serveBreaker h tr st\<close> replays the \<^verbatim>\<open>MarkSuccess\<close> and \<^verbatim>\<open>MarkFailed\<close> calls of a
  run \<open>tr\<close>, and \<open>breakerAllow draw h st\<close> is what \<^verbatim>\<open>retryBreaker.Allow()\<close> returns to
  the handler. A handler built by \<^verbatim>\<open>buildEndpoint\<close> always has its breaker; for any
  other number nothing happens.
\<close>

definition onBreaker :: "(sreBreaker \<Rightarrow> sreBreaker) \<Rightarrow> builtHandler \<Rightarrow> pstate \<Rightarrow> pstate" where
  "onBreaker f h st =
     (if retryBreaker h < length (breakers st)
      then st\<lparr>breakers := (breakers st)[retryBreaker h := f (breakers st ! retryBreaker h)]\<rparr>
      else st)"

fun breakerCall :: "builtHandler \<Rightarrow> event \<Rightarrow> pstate \<Rightarrow> pstate" where
  "breakerCall h (MarkSuccess i) st = onBreaker sreMarkSuccess h st"
| "breakerCall h (MarkFailed i) st = onBreaker sreMarkFailed h st"
| "breakerCall h ev st = st"

definition serveBreaker :: "builtHandler \<Rightarrow> event list \<Rightarrow> pstate \<Rightarrow> pstate" where
  "serveBreaker h tr st = fold (breakerCall h) tr st"

definition breakerAllow :: "bool \<Rightarrow> builtHandler \<Rightarrow> pstate \<Rightarrow> goerr option" where
  "breakerAllow draw h st =
     (if retryBreaker h < length (breakers st) then sreAllow draw (breakers st ! retryBreaker h)
      else None)"

subsection \<open>Sample configurations\<close>

definition otherEndpoint :: endpoint where
  "otherEndpoint = \<lparr>Path = ''/retryable'', Method = ''POST'', Host = [], Protocol = HTTP,
                     Stream = False, Middlewares = [''logging'']\<rparr>"

definition twoEndpoints :: gateway where
  "twoEndpoints = Gateway [httpEndpoint, otherEndpoint] [''cors'']"

text \<open>Every factory succeeds and every route is accepted.\<close>

definition sound :: benv where
  "sound = \<lparr>clientFactory = (\<lambda>e. None), middlewareFactory = (\<lambda>m. Made),
            prepareRetryStrategy = (\<lambda>e. Inr 3), routerHandle = (\<lambda>routes e. None)\<rparr>"

text \<open>The client of the second endpoint is made, then its middleware fails to build.\<close>

definition faulty :: benv where
  "faulty = sound\<lparr>middlewareFactory :=
               (\<lambda>m. if m = ''logging'' then Failed (plainError ''bad options'') else Made)\<rparr>"

text \<open>The mux rejects the second route.\<close>

definition rejecting :: benv where
  "rejecting = sound\<lparr>routerHandle :=
                  (\<lambda>routes e. if routes = [] then None else Some (plainError ''duplicate route''))\<rparr>"

definition started :: pstate where
  "started = \<lparr>router = [], clients = 0, closedClients = [], breakers = [], retired = []\<rparr>"

text \<open>
  The proxy after a first successful \<^verbatim>\<open>Update\<close> with the two endpoints, the handlers of
  its two routes, and the calls of five requests to the first endpoint whose upstream
  answers 500 every time: each request makes two failed retries.
\<close>

definition serving :: pstate where
  "serving = snd (Update sound twoEndpoints started)"

definition firstHandler :: builtHandler where
  "firstHandler = rHandler (router serving ! 0)"

definition secondHandler :: builtHandler where
  "secondHandler = rHandler (router serving ! 1)"

definition fiveFailures :: "event list" where
  "fiveFailures =
     concat (replicate 5 (run failing (hEndpoint firstHandler) (hAttempts firstHandler) []
       xffRequest))"

section \<open>Properties of setXFFHeader\<close>

lemma strings_Join_snoc:
  "strings_Join (xs @ [x]) sep = (if xs = [] then x else strings_Join xs sep @ sep @ x)"
  by (induction xs sep rule: strings_Join.induct) auto

text \<open>
  Claim C10. When RemoteAddr does not parse as host:port the request is returned unchanged.
  When it parses and X-Forwarded-For is present with a nil slice, the request is unchanged
  as well; otherwise only the header map changes, and X-Forwarded-For becomes the single
  value made of the prior values and the client IP joined by comma and space.
\<close>

theorem setXFFHeader_frame_and_fold:
  "(sp (RemoteAddr req) = None \<longrightarrow> setXFFHeader sp req = req) \<and>
   (sp (RemoteAddr req) = Some (ip, port) \<longrightarrow>
      (Header req ''X-Forwarded-For'' = Some NilSlice \<longrightarrow>
         setXFFHeader sp req = req) \<and>
      (Header req ''X-Forwarded-For'' \<noteq> Some NilSlice \<longrightarrow>
         setXFFHeader sp req =
           req\<lparr>Header := (Header req)(''X-Forwarded-For'' \<mapsto>
                  Slice [strings_Join (priorXFF req @ [ip]) '', ''])\<rparr>))"
proof -
  have unparsed: "sp (RemoteAddr req) = None \<Longrightarrow> setXFFHeader sp req = req"
    by (simp add: setXFFHeader_def)
  have omitted: "setXFFHeader sp req = req"
    if "sp (RemoteAddr req) = Some (ip, port)"
      and "Header req ''X-Forwarded-For'' = Some NilSlice"
    using that by (simp add: setXFFHeader_def)
  have folded: "setXFFHeader sp req =
      req\<lparr>Header := (Header req)(''X-Forwarded-For'' \<mapsto>
             Slice [strings_Join (priorXFF req @ [ip]) '', ''])\<rparr>"
    if p: "sp (RemoteAddr req) = Some (ip, port)"
      and n: "Header req ''X-Forwarded-For'' \<noteq> Some NilSlice"
  proof (cases "Header req ''X-Forwarded-For''")
    case None
    with p show ?thesis
      by (simp add: setXFFHeader_def priorXFF_def header_Set_def)
  next
    case (Some v)
    with n obtain vs where v: "v = Slice vs" by (cases v) auto
    with p Some show ?thesis
      by (simp add: setXFFHeader_def priorXFF_def header_Set_def strings_Join_snoc)
  qed
  from unparsed omitted folded show ?thesis by blast
qed

theorem setXFFHeader_frame_and_fold_witness:
  "splitLastColon (RemoteAddr xffRequest) = Some (''10.0.0.7'', ''4711'') \<and>
   Header xffRequest ''X-Forwarded-For'' \<noteq> Some NilSlice \<and>
   Header (setXFFHeader splitLastColon xffRequest) ''X-Forwarded-For'' =
     Some (Slice [''1.1.1.1, 2.2.2.2, 10.0.0.7'']) \<and>
   splitLastColon (RemoteAddr (xffRequest\<lparr>RemoteAddr := ''pipe''\<rparr>)) = None \<and>
   setXFFHeader splitLastColon (xffRequest\<lparr>RemoteAddr := ''pipe''\<rparr>) =
     xffRequest\<lparr>RemoteAddr := ''pipe''\<rparr>"
proof -
  have p: "splitLastColon (RemoteAddr xffRequest) = Some (''10.0.0.7'', ''4711'')"
    by (simp add: splitLastColon_def xffRequest_def)
  have n: "Header xffRequest ''X-Forwarded-For'' \<noteq> Some NilSlice"
    by (simp add: xffRequest_def)
  have u: "splitLastColon (RemoteAddr (xffRequest\<lparr>RemoteAddr := ''pipe''\<rparr>)) = None"
    by (simp add: splitLastColon_def)
  from setXFFHeader_frame_and_fold [of splitLastColon xffRequest "''10.0.0.7''" "''4711''"] p n
  have "setXFFHeader splitLastColon xffRequest =
      xffRequest\<lparr>Header := (Header xffRequest)(''X-Forwarded-For'' \<mapsto>
        Slice [strings_Join (priorXFF xffRequest @ [''10.0.0.7'']) '', ''])\<rparr>"
    by blast
  then have f: "Header (setXFFHeader splitLastColon xffRequest) ''X-Forwarded-For'' =
      Some (Slice [''1.1.1.1, 2.2.2.2, 10.0.0.7''])"
    by (simp add: priorXFF_def xffRequest_def)
  from setXFFHeader_frame_and_fold [of splitLastColon "xffRequest\<lparr>RemoteAddr := ''pipe''\<rparr>"] u
  have "setXFFHeader splitLastColon (xffRequest\<lparr>RemoteAddr := ''pipe''\<rparr>) =
      xffRequest\<lparr>RemoteAddr := ''pipe''\<rparr>"
    by blast
  with p n f u show ?thesis by blast
qed

section \<open>Properties of writeError\<close>

lemma writeError_events:
  "events (writeError g e er s) =
     events s @ (if mappedStatus er = 502 then [LogErrorf] else []) @
       [HandleRequest (mappedStatus er) (Some er)]"
  by (simp add: writeError_def mappedStatus_def emit_def WriteHeader_def Let_def)

lemma writeError_grpc:
  "Protocol e = GRPC \<Longrightarrow>
     WStatus (writeError g e er s) = WStatus s @ [200] \<and>
     WHeader (writeError g e er s) =
       (WHeader s)(''Content-Type'' \<mapsto> Slice [''application/grpc''],
                   ''Grpc-Status'' \<mapsto> Slice [Itoa (g (mappedStatus er))],
                   ''Grpc-Message'' \<mapsto> Slice [errText er])"
  by (simp add: writeError_def mappedStatus_def emit_def WriteHeader_def header_Set_def Let_def)

lemma writeError_plain:
  "Protocol e \<noteq> GRPC \<Longrightarrow>
     WStatus (writeError g e er s) = WStatus s @ [mappedStatus er] \<and>
     WHeader (writeError g e er s) = WHeader s"
  by (simp add: writeError_def mappedStatus_def emit_def WriteHeader_def Let_def)

text \<open>
  Claim C3. An error that is context-canceled, or whose text is "client disconnected", maps
  to 499; otherwise a deadline-exceeded error maps to 504; every other error maps to 502
  and is logged. The observer's HandleRequest receives the mapped status and the error. For
  a gRPC endpoint the writer gets Content-Type application/grpc, Grpc-Status (the translated
  mapped status) and Grpc-Message (the error text), and WriteHeader is called with 200; for
  any other protocol WriteHeader is called with the mapped status and no header is set.
\<close>

theorem writeError_maps_errors:
  "(isCanceled er \<or> errText er = ''client disconnected'' \<longrightarrow> mappedStatus er = 499) \<and>
   (\<not> isCanceled er \<and> errText er \<noteq> ''client disconnected'' \<and> isDeadlineExceeded er \<longrightarrow>
      mappedStatus er = 504) \<and>
   (\<not> isCanceled er \<and> errText er \<noteq> ''client disconnected'' \<and> \<not> isDeadlineExceeded er \<longrightarrow>
      mappedStatus er = 502 \<and> LogErrorf \<in> set (events (writeError g e er s))) \<and>
   events (writeError g e er s) =
     events s @ (if mappedStatus er = 502 then [LogErrorf] else []) @
       [HandleRequest (mappedStatus er) (Some er)] \<and>
   (Protocol e = GRPC \<longrightarrow>
      WStatus (writeError g e er s) = WStatus s @ [200] \<and>
      WHeader (writeError g e er s) =
        (WHeader s)(''Content-Type'' \<mapsto> Slice [''application/grpc''],
                    ''Grpc-Status'' \<mapsto> Slice [Itoa (g (mappedStatus er))],
                    ''Grpc-Message'' \<mapsto> Slice [errText er])) \<and>
   (Protocol e \<noteq> GRPC \<longrightarrow>
      WStatus (writeError g e er s) = WStatus s @ [mappedStatus er] \<and>
      WHeader (writeError g e er s) = WHeader s)"
proof -
  have cases: "(isCanceled er \<or> errText er = ''client disconnected'' \<longrightarrow> mappedStatus er = 499) \<and>
      (\<not> isCanceled er \<and> errText er \<noteq> ''client disconnected'' \<and> isDeadlineExceeded er \<longrightarrow>
         mappedStatus er = 504) \<and>
      (\<not> isCanceled er \<and> errText er \<noteq> ''client disconnected'' \<and> \<not> isDeadlineExceeded er \<longrightarrow>
         mappedStatus er = 502)"
    by (simp add: mappedStatus_def)
  have logged: "mappedStatus er = 502 \<Longrightarrow> LogErrorf \<in> set (events (writeError g e er s))"
    by (simp add: writeError_events)
  from cases logged writeError_events [of g e er s] writeError_grpc [of e g er s]
    writeError_plain [of e g er s]
  show ?thesis by blast
qed

theorem writeError_maps_errors_witness:
  "Protocol grpcEndpoint = GRPC \<and>
   \<not> isCanceled deadlineExceeded \<and> isDeadlineExceeded deadlineExceeded \<and>
   errText deadlineExceeded \<noteq> ''client disconnected'' \<and>
   mappedStatus deadlineExceeded = 504 \<and>
   events (writeError grpcCodes grpcEndpoint deadlineExceeded initial) =
     [HandleRequest 504 (Some deadlineExceeded)] \<and>
   WStatus (writeError grpcCodes grpcEndpoint deadlineExceeded initial) = [200] \<and>
   WHeader (writeError grpcCodes grpcEndpoint deadlineExceeded initial) ''Grpc-Status'' =
     Some (Slice [''4'']) \<and>
   WHeader (writeError grpcCodes grpcEndpoint deadlineExceeded initial) ''Grpc-Message'' =
     Some (Slice [''context deadline exceeded'']) \<and>
   isCanceled canceled \<and> mappedStatus canceled = 499 \<and>
   Protocol httpEndpoint \<noteq> GRPC \<and>
   WStatus (writeError grpcCodes httpEndpoint (plainError ''connection refused'') initial) = [502] \<and>
   events (writeError grpcCodes httpEndpoint (plainError ''connection refused'') initial) =
     [LogErrorf, HandleRequest 502 (Some (plainError ''connection refused''))]"
proof -
  have g: "Protocol grpcEndpoint = GRPC" and h: "Protocol httpEndpoint \<noteq> GRPC"
    by (simp_all add: grpcEndpoint_def httpEndpoint_def)
  have d: "\<not> isCanceled deadlineExceeded" "isDeadlineExceeded deadlineExceeded"
    "errText deadlineExceeded \<noteq> ''client disconnected''"
    by (simp_all add: deadlineExceeded_def)
  have c: "isCanceled canceled" by (simp add: canceled_def)
  have p: "\<not> isCanceled (plainError ''connection refused'')"
    "errText (plainError ''connection refused'') \<noteq> ''client disconnected''"
    "\<not> isDeadlineExceeded (plainError ''connection refused'')"
    by (simp_all add: plainError_def)
  have four: "Itoa (grpcCodes 504) = ''4''"
    by code_simp
  note A = writeError_maps_errors [of deadlineExceeded grpcCodes grpcEndpoint initial]
  note B = writeError_maps_errors [of canceled grpcCodes grpcEndpoint initial]
  note C = writeError_maps_errors [of "plainError ''connection refused''" grpcCodes httpEndpoint initial]
  from A g d have a1: "mappedStatus deadlineExceeded = 504" by blast
  from A g have a2: "WStatus (writeError grpcCodes grpcEndpoint deadlineExceeded initial) = WStatus initial @ [200]"
    and a3: "WHeader (writeError grpcCodes grpcEndpoint deadlineExceeded initial) =
        (WHeader initial)(''Content-Type'' \<mapsto> Slice [''application/grpc''],
                    ''Grpc-Status'' \<mapsto> Slice [Itoa (grpcCodes (mappedStatus deadlineExceeded))],
                    ''Grpc-Message'' \<mapsto> Slice [errText deadlineExceeded])"
    and a4: "events (writeError grpcCodes grpcEndpoint deadlineExceeded initial) =
       events initial @ (if mappedStatus deadlineExceeded = 502 then [LogErrorf] else []) @
       [HandleRequest (mappedStatus deadlineExceeded) (Some deadlineExceeded)]"
    by blast+
  from B c have b1: "mappedStatus canceled = 499" by blast
  from C p have c1: "mappedStatus (plainError ''connection refused'') = 502" by blast
  from C h have c2: "WStatus (writeError grpcCodes httpEndpoint (plainError ''connection refused'') initial) =
      WStatus initial @ [mappedStatus (plainError ''connection refused'')]"
    and c3: "events (writeError grpcCodes httpEndpoint (plainError ''connection refused'') initial) =
       events initial @ (if mappedStatus (plainError ''connection refused'') = 502 then [LogErrorf] else []) @
       [HandleRequest (mappedStatus (plainError ''connection refused'')) (Some (plainError ''connection refused''))]"
    by blast+
  have e1: "events (writeError grpcCodes grpcEndpoint deadlineExceeded initial) =
     [HandleRequest 504 (Some deadlineExceeded)]"
    using a4 a1 by (simp add: initial_def)
  have e2: "WStatus (writeError grpcCodes grpcEndpoint deadlineExceeded initial) = [200]"
    using a2 by (simp add: initial_def)
  have e3: "WHeader (writeError grpcCodes grpcEndpoint deadlineExceeded initial) ''Grpc-Status'' =
     Some (Slice [''4''])"
    using a3 a1 four by simp
  have e4: "WHeader (writeError grpcCodes grpcEndpoint deadlineExceeded initial) ''Grpc-Message'' =
     Some (Slice [''context deadline exceeded''])"
    using a3 by (simp add: deadlineExceeded_def)
  have e5: "WStatus (writeError grpcCodes httpEndpoint (plainError ''connection refused'') initial) = [502]"
    using c2 c1 by (simp add: initial_def)
  have e6: "events (writeError grpcCodes httpEndpoint (plainError ''connection refused'') initial) =
     [LogErrorf, HandleRequest 502 (Some (plainError ''connection refused''))]"
    using c3 c1 by (simp add: initial_def)
  from g h d c a1 b1 e1 e2 e3 e4 e5 e6 show ?thesis by blast
qed

section \<open>The calls of the attempt loop\<close>

lemma markFailed_eq: "markFailed i er s = s\<lparr>events := events s @ failedCalls i er\<rparr>"
  by (simp add: markFailed_def failed_def splitRetryMetricsHandler_def emit_def failedCalls_def)

lemma markSuccess_eq: "markSuccess i s = s\<lparr>events := events s @ successCalls i\<rparr>"
  by (simp add: markSuccess_def success_def splitRetryMetricsHandler_def emit_def successCalls_def)

lemma markBreaker_eq: "markBreaker i s = s\<lparr>events := events s @ breakerCalls i\<rparr>"
  by (simp add: markBreaker_def breaker_def splitRetryMetricsHandler_def emit_def breakerCalls_def)

lemma gate_eq:
  "gate en i s =
     (if i > 0 then
        (if \<not> retryEnabled en i then (Break, s)
         else (case allowResult en i of
                 Some er \<Rightarrow>
                   (Break, s\<lparr>events := events s @ Allow i (Some er) # refusalCalls i er\<rparr>)
               | None \<Rightarrow> (Continue, s\<lparr>events := events s @ [Allow i None]\<rparr>)))
      else (Continue, s))"
  by (simp add: gate_def markFailed_eq markBreaker_eq emit_def refusalCalls_def
        split: option.splits)

lemma attempt_eq:
  "attempt en n i s =
     (let la = (LastAttempt s \<or> i + 1 \<ge> n)
      in case ctxErr en i of
           Some er \<Rightarrow>
             (Break, s\<lparr>events := events s @ failedCalls i er, LastAttempt := la, err := Some er\<rparr>)
         | None \<Rightarrow>
             (case roundTrip en i la of
                Inl er \<Rightarrow>
                  (Continue,
                   s\<lparr>events := events s @ RoundTrip i la # failedCalls i er @ [LogErrorf],
                     LastAttempt := la, resp := None, err := Some er\<rparr>)
              | Inr r \<Rightarrow>
                  if \<not> judgeRetryRequired en r
                  then (Break,
                        s\<lparr>events := events s @ RoundTrip i la # successCalls i,
                          LastAttempt := True, resp := Some r, err := None\<rparr>)
                  else (case Body r of
                          None \<Rightarrow>
                            (Panic,
                             s\<lparr>events := events s @ RoundTrip i la # failedCalls i assertionFailed,
                               LastAttempt := la, resp := Some r, err := None\<rparr>)
                        | Some b \<Rightarrow>
                            (Continue,
                             s\<lparr>events := events s @ RoundTrip i la #
                                           failedCalls i assertionFailed @ [BodyClose i],
                               LastAttempt := la,
                               resp := Some (r\<lparr>Body := Some (body_Close b)\<rparr>), err := None\<rparr>))))"
  by (auto simp add: attempt_def markFailed_eq markSuccess_eq emit_def Let_def
        split: option.splits sum.splits)

lemma inLoop_failedCalls: "i < n \<Longrightarrow> ev \<in> set (failedCalls i er) \<Longrightarrow> inLoop i n ev"
  by (auto simp add: failedCalls_def split: if_splits)

lemma inLoop_successCalls: "i < n \<Longrightarrow> ev \<in> set (successCalls i) \<Longrightarrow> inLoop i n ev"
  by (auto simp add: successCalls_def split: if_splits)

lemma inLoop_refusalCalls: "i < n \<Longrightarrow> ev \<in> set (refusalCalls i er) \<Longrightarrow> inLoop i n ev"
  by (auto simp add: refusalCalls_def breakerCalls_def failedCalls_def split: if_splits)

lemma inLoop_mono: "inLoop (i + 1) n ev \<Longrightarrow> inLoop i n ev"
  by (cases ev) auto

lemma attemptLoop_cases [consumes 1, case_names Done GateStop AttemptStop Next]:
  assumes "attemptLoop en n i s = (c, s')"
  obtains
    (Done) "\<not> i < n" "c = Continue" "s' = s"
  | (GateStop) "i < n" "gate en i s = (c, s')" "c \<noteq> Continue"
  | (AttemptStop) s1 where "i < n" "gate en i s = (Continue, s1)"
      "attempt en n i s1 = (c, s')" "c \<noteq> Continue"
  | (Next) s1 s2 where "i < n" "gate en i s = (Continue, s1)"
      "attempt en n i s1 = (Continue, s2)" "attemptLoop en n (i + 1) s2 = (c, s')"
proof (cases "i < n")
  case False
  with assms have "c = Continue" "s' = s" by (simp_all add: attemptLoop.simps)
  with False show ?thesis by (rule Done)
next
  case True
  obtain g s1 where g: "gate en i s = (g, s1)" by (cases "gate en i s")
  show ?thesis
  proof (cases "g = Continue")
    case False
    with assms True g have "gate en i s = (c, s')" "c \<noteq> Continue"
      by (auto simp add: attemptLoop.simps [of en n i s] split: ctl.splits)
    with True show ?thesis by (rule GateStop)
  next
    case gc: True
    obtain a s2 where a: "attempt en n i s1 = (a, s2)" by (cases "attempt en n i s1")
    show ?thesis
    proof (cases "a = Continue")
      case False
      with assms True g gc a have "attempt en n i s1 = (c, s')" "c \<noteq> Continue"
        by (auto simp add: attemptLoop.simps [of en n i s] split: ctl.splits)
      with True g gc show ?thesis by (auto intro: AttemptStop)
    next
      case ac: True
      with assms True g gc a have "attemptLoop en n (i + 1) s2 = (c, s')"
        by (simp add: attemptLoop.simps [of en n i s])
      with True g gc a ac show ?thesis by (auto intro: Next)
    qed
  qed
qed

text \<open>What one pass through the loop body adds, when the loop goes on.\<close>

lemma gate_Continue:
  assumes "gate en i s = (Continue, s1)"
  shows "s1 = s\<lparr>events := events s @ (if i > 0 then [Allow i None] else [])\<rparr>"
    and "i > 0 \<Longrightarrow> retryEnabled en i \<and> allowResult en i = None"
  using assms by (auto simp add: gate_eq split: if_splits option.splits)

lemma gate_Stop:
  assumes "gate en i s = (c, s')" "c \<noteq> Continue"
  shows "i > 0 \<and> c = Break \<and>
         (s' = s \<or> (\<exists>er. allowResult en i = Some er \<and>
                       s' = s\<lparr>events := events s @ Allow i (Some er) # refusalCalls i er\<rparr>))"
  using assms by (auto simp add: gate_eq split: if_splits option.splits)

lemma attemptLoop_loopTrace:
  assumes "attemptLoop en n i s = (c, s')" "LastAttempt s \<longrightarrow> n \<le> i"
  shows "\<exists>new. events s' = events s @ new \<and> loopTrace i n new"
  using assms
proof (induction "nat (n - i)" arbitrary: i s)
  case 0
  then have "\<not> i < n" by simp
  with "0.prems"(1) have "s' = s" by (simp add: attemptLoop.simps)
  then show ?case by (simp add: loopTrace.finished)
next
  case (Suc k)
  from Suc.prems(1) show ?case
  proof (cases rule: attemptLoop_cases)
    case Done
    then show ?thesis by (simp add: loopTrace.finished)
  next
    case GateStop
    from gate_Stop [OF GateStop(2,3)] GateStop(1) show ?thesis
      by (auto intro: loopTrace.finished loopTrace.refused)
  next
    case (AttemptStop s1)
    have la: "\<not> LastAttempt s1"
      using gate_Continue(1) [OF AttemptStop(2)] AttemptStop(1) Suc.prems(2) by auto
    have ev1: "events s1 = events s @ allowNone i"
      using gate_Continue(1) [OF AttemptStop(2)] by (simp add: allowNone_def)
    from AttemptStop(3,4) la
    have "(\<exists>er. events s' = events s1 @ failedCalls i er) \<or>
          events s' = events s1 @ RoundTrip i (i + 1 \<ge> n) # successCalls i \<or>
          events s' = events s1 @ RoundTrip i (i + 1 \<ge> n) # failedCalls i assertionFailed"
      by (auto simp add: attempt_eq Let_def split: option.splits sum.splits if_splits)
    with ev1 AttemptStop(1) show ?thesis
      by (auto intro: loopTrace.expired loopTrace.succeeded loopTrace.panicked)
  next
    case (Next s1 s2)
    have k: "k = nat (n - (i + 1))" using Suc.hyps(2) by simp
    have la: "\<not> LastAttempt s1"
      using gate_Continue(1) [OF Next(2)] Next(1) Suc.prems(2) by auto
    have ev1: "events s1 = events s @ allowNone i"
      using gate_Continue(1) [OF Next(2)] by (simp add: allowNone_def)
    from Next(3) la have la2: "LastAttempt s2 \<longrightarrow> n \<le> i + 1"
      by (auto simp add: attempt_eq Let_def split: option.splits sum.splits if_splits)
    from Suc.hyps(1) [OF k Next(4) la2]
    obtain rest where rest: "events s' = events s2 @ rest" "loopTrace (i + 1) n rest"
      by auto
    from Next(3) la
    have "(\<exists>er. events s2 = events s1 @ RoundTrip i (i + 1 \<ge> n) # failedCalls i er @ [LogErrorf]) \<or>
          events s2 = events s1 @ RoundTrip i (i + 1 \<ge> n) # failedCalls i assertionFailed @ [BodyClose i]"
      by (auto simp add: attempt_eq Let_def split: option.splits sum.splits if_splits)
    then show ?thesis
    proof
      assume "\<exists>er. events s2 = events s1 @ RoundTrip i (i + 1 \<ge> n) # failedCalls i er @ [LogErrorf]"
      then obtain er where "events s2 = events s1 @ RoundTrip i (i + 1 \<ge> n) # failedCalls i er @ [LogErrorf]"
        by blast
      with rest ev1 have "events s' =
          events s @ (allowNone i @ RoundTrip i (i + 1 \<ge> n) # failedCalls i er @ LogErrorf # rest)"
        by simp
      with loopTrace.transportError [OF Next(1) rest(2)] show ?thesis by blast
    next
      assume "events s2 = events s1 @ RoundTrip i (i + 1 \<ge> n) # failedCalls i assertionFailed @ [BodyClose i]"
      with rest ev1 have "events s' =
          events s @ (allowNone i @ RoundTrip i (i + 1 \<ge> n) #
                      failedCalls i assertionFailed @ BodyClose i # rest)"
        by simp
      with loopTrace.retriable [OF Next(1) rest(2)] show ?thesis by blast
    qed
  qed
qed

subsection \<open>Facts read off the shapes\<close>

lemma retryIndices_simps [simp]:
  "retryIndices [] = []"
  "retryIndices (ev # tr) = retryIndex ev @ retryIndices tr"
  "retryIndices (a @ b) = retryIndices a @ retryIndices b"
  by (simp_all add: retryIndices_def)

lemma roundTripIndices_simps [simp]:
  "roundTripIndices [] = []"
  "roundTripIndices (ev # tr) = roundTripIndex ev @ roundTripIndices tr"
  "roundTripIndices (a @ b) = roundTripIndices a @ roundTripIndices b"
  by (simp_all add: roundTripIndices_def)

lemma retryIndices_calls [simp]:
  "retryIndices (allowNone i) = []"
  "retryIndices (failedCalls i er) = (if i > 0 \<and> \<not> isCanceled er then [i] else [])"
  "retryIndices (successCalls i) = (if i > 0 then [i] else [])"
  "retryIndices (breakerCalls i) = (if i > 0 then [i] else [])"
  by (simp_all add: allowNone_def failedCalls_def successCalls_def breakerCalls_def)

lemma roundTripIndices_calls [simp]:
  "roundTripIndices (allowNone i) = []"
  "roundTripIndices (failedCalls i er) = []"
  "roundTripIndices (successCalls i) = []"
  "roundTripIndices (refusalCalls i er) = []"
  by (simp_all add: allowNone_def failedCalls_def successCalls_def breakerCalls_def refusalCalls_def)

lemma loopTrace_inLoop: "loopTrace i n tr \<Longrightarrow> \<forall>ev\<in>set tr. inLoop i n ev"
proof (induction rule: loopTrace.induct)
  case (transportError i n rest er)
  then show ?case
    by (auto simp add: allowNone_def dest: inLoop_failedCalls inLoop_mono)
next
  case (retriable i n rest)
  then show ?case
    by (auto simp add: allowNone_def dest: inLoop_failedCalls inLoop_mono)
qed (auto simp add: allowNone_def
       dest: inLoop_failedCalls inLoop_successCalls inLoop_refusalCalls)





lemma gated_skip:
  "\<forall>ev\<in>set a. \<not> isRoundTrip ev \<and> \<not> isAllow ev \<Longrightarrow> gated seen (a @ b) = gated seen b"
proof (induction a)
  case Nil
  then show ?case by simp
next
  case (Cons ev a)
  then show ?case by (cases ev) auto
qed

lemma calls_no_transport:
  "\<forall>ev\<in>set (failedCalls i er). \<not> isRoundTrip ev \<and> \<not> isAllow ev"
  "\<forall>ev\<in>set (successCalls i). \<not> isRoundTrip ev \<and> \<not> isAllow ev"
  "\<forall>ev\<in>set (refusalCalls i er). \<not> isRoundTrip ev \<and> \<not> isAllow ev"
  by (auto simp add: failedCalls_def successCalls_def refusalCalls_def breakerCalls_def)

lemma gated_quiet: "list_all quiet tr \<Longrightarrow> gated seen tr"
proof (induction tr)
  case Nil
  then show ?case by simp
next
  case (Cons ev tr)
  then show ?case by (cases ev) (simp_all add: quiet_def)
qed

lemma loopTrace_gated: "loopTrace i n tr \<Longrightarrow> list_all quiet post \<Longrightarrow> gated seen (tr @ post)"
proof (induction arbitrary: seen rule: loopTrace.induct)
  case (finished i n)
  then show ?case by (simp add: gated_quiet)
next
  case (refused i n er)
  then show ?case
    using gated_skip [OF calls_no_transport(3), of seen i er post] by (simp add: gated_quiet)
next
  case (expired i n er)
  then show ?case
    using gated_skip [OF calls_no_transport(1), of _ i er post]
    by (simp add: allowNone_def gated_quiet)
next
  case (succeeded i n)
  then show ?case
    using gated_skip [OF calls_no_transport(2), of _ i post]
    by (simp add: allowNone_def gated_quiet)
next
  case (panicked i n)
  then show ?case
    using gated_skip [OF calls_no_transport(1), of _ i assertionFailed post]
    by (simp add: allowNone_def gated_quiet)
next
  case (transportError i n rest er)
  then show ?case
    using gated_skip [OF calls_no_transport(1), of _ i er "LogErrorf # rest @ post"]
    by (simp add: allowNone_def)
next
  case (retriable i n rest)
  then show ?case
    using gated_skip [OF calls_no_transport(1), of _ i assertionFailed "BodyClose i # rest @ post"]
    by (simp add: allowNone_def)
qed

lemma abandoned_skip: "\<forall>ev\<in>set a. \<not> isAllow ev \<Longrightarrow> abandoned (a @ b) = abandoned b"
proof (induction a)
  case Nil
  then show ?case by simp
next
  case (Cons ev a)
  then show ?case by (cases ev) auto
qed

lemma quiet_no_Allow: "list_all quiet tr \<Longrightarrow> \<forall>ev\<in>set tr. \<not> isAllow ev"
proof (induction tr)
  case Nil
  then show ?case by simp
next
  case (Cons ev tr)
  then show ?case by (cases ev) (auto simp add: quiet_def)
qed

lemma abandoned_quiet: "list_all quiet tr \<Longrightarrow> abandoned tr"
  using abandoned_skip [OF quiet_no_Allow, of tr "[]"] by simp

lemma abandoned_allowNone: "abandoned (allowNone i @ tr) = abandoned tr"
  by (simp add: allowNone_def)

lemma loopTrace_abandoned: "loopTrace i n tr \<Longrightarrow> list_all quiet post \<Longrightarrow> abandoned (tr @ post)"
proof (induction rule: loopTrace.induct)
  case (finished i n)
  then show ?case by (simp add: abandoned_quiet)
next
  case (refused i n er)
  then show ?case by simp
next
  case (expired i n er)
  then show ?case
    using abandoned_skip [of "failedCalls i er" post] calls_no_transport(1) [of i er]
    by (simp add: abandoned_allowNone abandoned_quiet)
next
  case (succeeded i n)
  then show ?case
    using abandoned_skip [of "successCalls i" post] calls_no_transport(2) [of i]
    by (simp add: abandoned_allowNone abandoned_quiet)
next
  case (panicked i n)
  then show ?case
    using abandoned_skip [of "failedCalls i assertionFailed" post]
      calls_no_transport(1) [of i assertionFailed]
    by (simp add: abandoned_allowNone abandoned_quiet)
next
  case (transportError i n rest er)
  then show ?case
    using abandoned_skip [of "failedCalls i er" "LogErrorf # rest @ post"]
      calls_no_transport(1) [of i er]
    by (simp add: abandoned_allowNone)
next
  case (retriable i n rest)
  then show ?case
    using abandoned_skip [of "failedCalls i assertionFailed" "BodyClose i # rest @ post"]
      calls_no_transport(1) [of i assertionFailed]
    by (simp add: abandoned_allowNone)
qed

section \<open>The calls of a whole request\<close>

lemma writeError_calls:
  "\<exists>post. events (writeError g e er s) = events s @ post \<and> list_all quiet post \<and>
          filter isDoneFunc post = []"
  by (simp add: writeError_events quiet_def)

lemma writeError_fields:
  "LastAttempt (writeError g e er s) = LastAttempt s"
  "resp (writeError g e er s) = resp s"
  "err (writeError g e er s) = err s"
  by (simp_all add: writeError_def emit_def WriteHeader_def Let_def split: prod.splits)

lemma relay_calls:
  "\<exists>post. events (relay en e rq r s) = events s @ post \<and> list_all quiet post \<and>
          filter isDoneFunc post = relayDone en e r"
  by (auto simp add: relay_def doCopyBody_def relayDone_def emit_def WriteHeader_def Let_def quiet_def
        split: option.splits prod.splits)

lemma relay_fields:
  "resp (relay en e rq r s) = resp s"
  "err (relay en e rq r s) = err s"
  by (auto simp add: relay_def doCopyBody_def emit_def WriteHeader_def Let_def
        split: option.splits prod.splits)


text \<open>
  A buffered request: the calls are those of reading the body, of the loop, and quiet calls
  after it; the handler's \<^verbatim>\<open>DoneFunc\<close> calls are those of the relay, if it comes to one.
\<close>

lemma handler_buffered:
  assumes "\<not> Stream e" "handler en e n rp rq0 s = (p, rq, s')"
  shows "\<exists>pre new post.
           events s' = events s @ pre @ new @ post \<and>
           list_all quiet pre \<and> filter isDoneFunc pre = [] \<and>
           loopTrace 0 n new \<and> list_all quiet post \<and>
           filter isDoneFunc post =
             (if \<not> p \<and> readAllErr en = None \<and> err s' = None
              then (case resp s' of None \<Rightarrow> [] | Some r \<Rightarrow> relayDone en e r) else [])"
proof (cases "readAllErr en")
  case (Some er)
  obtain post where post:
    "events (writeError (toGRPCCode en) e er (s\<lparr>LastAttempt := False, resp := None, err := None\<rparr>)) =
       events s @ post" "list_all quiet post" "filter isDoneFunc post = []"
    using writeError_calls [of "toGRPCCode en" e er "s\<lparr>LastAttempt := False, resp := None, err := None\<rparr>"]
    by auto
  from assms Some have "s' = emit HandleLatency
      (writeError (toGRPCCode en) e er (s\<lparr>LastAttempt := False, resp := None, err := None\<rparr>))"
    by (auto simp add: handler_def Let_def)
  with post Some have "events s' = events s @ [] @ [] @ (post @ [HandleLatency]) \<and>
      list_all quiet [] \<and> filter isDoneFunc [] = [] \<and> loopTrace 0 n [] \<and>
      list_all quiet (post @ [HandleLatency]) \<and>
      filter isDoneFunc (post @ [HandleLatency]) =
        (if \<not> p \<and> readAllErr en = None \<and> err s' = None
         then (case resp s' of None \<Rightarrow> [] | Some r \<Rightarrow> relayDone en e r) else [])"
    by (simp add: emit_def quiet_def loopTrace.finished)
  then show ?thesis by blast
next
  case None
  define s1 where "s1 = emit (HandleReceivedBytes (int (length (ReqBody (setXFFHeader (splitHostPort en) rq0)))))
      (s\<lparr>LastAttempt := False, resp := None, err := None\<rparr>)"
  obtain c s2 where loop: "attemptLoop en n 0 s1 = (c, s2)" by (cases "attemptLoop en n 0 s1")
  have "LastAttempt s1 \<longrightarrow> n \<le> 0" by (simp add: s1_def emit_def)
  from attemptLoop_loopTrace [OF loop this]
  obtain new where new: "events s2 = events s1 @ new" "loopTrace 0 n new" by auto
  have ev1: "events s1 = events s @ [HandleReceivedBytes (int (length (ReqBody (setXFFHeader (splitHostPort en) rq0))))]"
    by (simp add: s1_def emit_def)
  have pre: "list_all quiet [HandleReceivedBytes (int (length (ReqBody (setXFFHeader (splitHostPort en) rq0))))]"
    "filter isDoneFunc [HandleReceivedBytes (int (length (ReqBody (setXFFHeader (splitHostPort en) rq0))))] = []"
    by (simp_all add: quiet_def)
  have "\<exists>post. events s' = events s2 @ post \<and> list_all quiet post \<and>
          filter isDoneFunc post =
             (if \<not> p \<and> err s' = None
              then (case resp s' of None \<Rightarrow> [] | Some r \<Rightarrow> relayDone en e r) else [])"
  proof (cases "c = Panic")
    case True
    with assms None loop have "s' = emit HandleLatency s2" "p"
      by (auto simp add: handler_def Let_def s1_def)
    then show ?thesis by (simp add: emit_def quiet_def)
  next
    case notPanic: False
    show ?thesis
    proof (cases "err s2")
      case (Some er)
      with assms None loop notPanic
      have s': "s' = emit HandleLatency (writeError (toGRPCCode en) e er s2)" "\<not> p"
        by (auto simp add: handler_def Let_def s1_def)
      obtain post where "events (writeError (toGRPCCode en) e er s2) = events s2 @ post"
        "list_all quiet post" "filter isDoneFunc post = []"
        using writeError_calls [of "toGRPCCode en" e er s2] by auto
      with s' Some have "events s' = events s2 @ (post @ [HandleLatency]) \<and>
        list_all quiet (post @ [HandleLatency]) \<and>
        filter isDoneFunc (post @ [HandleLatency]) =
           (if \<not> p \<and> err s' = None
            then (case resp s' of None \<Rightarrow> [] | Some r \<Rightarrow> relayDone en e r) else [])"
        by (simp add: emit_def quiet_def writeError_fields)
      then show ?thesis by (rule exI)
    next
      case noErr: None
      show ?thesis
      proof (cases "resp s2")
        case None
        with assms \<open>readAllErr en = None\<close> loop notPanic noErr
        have "s' = emit HandleLatency s2" "p"
          by (auto simp add: handler_def Let_def s1_def)
        then show ?thesis by (simp add: emit_def quiet_def)
      next
        case (Some r)
        with assms \<open>readAllErr en = None\<close> loop notPanic noErr
        have s': "s' = emit HandleLatency (relay en e rq r s2)" "\<not> p"
          by (auto simp add: handler_def Let_def s1_def)
        obtain post where "events (relay en e rq r s2) = events s2 @ post"
          "list_all quiet post" "filter isDoneFunc post = relayDone en e r"
          using relay_calls [of en e rq r s2] by auto
        with s' Some noErr have "events s' = events s2 @ (post @ [HandleLatency]) \<and>
          list_all quiet (post @ [HandleLatency]) \<and>
          filter isDoneFunc (post @ [HandleLatency]) =
             (if \<not> p \<and> err s' = None
              then (case resp s' of None \<Rightarrow> [] | Some r \<Rightarrow> relayDone en e r) else [])"
          by (simp add: emit_def quiet_def relay_fields)
        then show ?thesis by (rule exI)
      qed
    qed
  qed
  then obtain post where post: "events s' = events s2 @ post" "list_all quiet post"
    "filter isDoneFunc post =
             (if \<not> p \<and> err s' = None
              then (case resp s' of None \<Rightarrow> [] | Some r \<Rightarrow> relayDone en e r) else [])"
    by blast
  from post(1) new(1) ev1
  have "events s' = events s @ [HandleReceivedBytes (int (length (ReqBody (setXFFHeader (splitHostPort en) rq0))))] @ new @ post"
    by simp
  with pre new(2) post(2,3) None
  have "events s' = events s @ [HandleReceivedBytes (int (length (ReqBody (setXFFHeader (splitHostPort en) rq0))))] @ new @ post \<and>
      list_all quiet [HandleReceivedBytes (int (length (ReqBody (setXFFHeader (splitHostPort en) rq0))))] \<and>
      filter isDoneFunc [HandleReceivedBytes (int (length (ReqBody (setXFFHeader (splitHostPort en) rq0))))] = [] \<and>
      loopTrace 0 n new \<and> list_all quiet post \<and>
      filter isDoneFunc post =
        (if \<not> p \<and> readAllErr en = None \<and> err s' = None
         then (case resp s' of None \<Rightarrow> [] | Some r \<Rightarrow> relayDone en e r) else [])"
    by simp
  then show ?thesis by (intro exI)
qed




section \<open>The breaker and the retry metrics in a request\<close>

lemma quiet_props:
  "list_all quiet tr \<Longrightarrow>
     \<forall>ev\<in>set tr. \<not> isRoundTrip ev \<and> \<not> isAllow ev \<and> \<not> isBreakerCall ev \<and> \<not> isRetry ev"
proof
  fix ev assume "list_all quiet tr" "ev \<in> set tr"
  then have "quiet ev" by (simp add: list_all_iff)
  then show "\<not> isRoundTrip ev \<and> \<not> isAllow ev \<and> \<not> isBreakerCall ev \<and> \<not> isRetry ev"
    by (cases ev) (simp_all add: quiet_def)
qed


lemma run_buffered:
  assumes "\<not> Stream e"
  obtains pre new post where "run en e n rp rq = pre @ new @ post" "list_all quiet pre"
    "loopTrace 0 n new" "list_all quiet post"
proof -
  obtain p rq' s' where h: "handler en e n rp rq initial = (p, rq', s')"
    by (cases "handler en e n rp rq initial")
  from handler_buffered [OF assms h]
  obtain pre new post where "events s' = events initial @ pre @ new @ post" "list_all quiet pre"
    "loopTrace 0 n new" "list_all quiet post"
    by blast
  with h have "run en e n rp rq = pre @ new @ post"
    by (simp add: run_def initial_def)
  with that \<open>list_all quiet pre\<close> \<open>loopTrace 0 n new\<close> \<open>list_all quiet post\<close> show ?thesis
    by blast
qed


lemma breaker_calls_positive:
  assumes "\<forall>ev\<in>set tr. inLoop 0 n ev"
  shows "(\<forall>i r. Allow i r \<in> set tr \<longrightarrow> 0 < i) \<and> (\<forall>i. MarkSuccess i \<in> set tr \<longrightarrow> 0 < i) \<and>
         (\<forall>i. MarkFailed i \<in> set tr \<longrightarrow> 0 < i) \<and>
         (\<forall>i l. HandleRetry i l \<in> set tr \<longrightarrow> 0 < i \<and> i < n) \<and>
         (\<forall>i b. RoundTrip i b \<in> set tr \<longrightarrow> 0 \<le> i \<and> i < n \<and> (b \<longleftrightarrow> i + 1 \<ge> n))"
proof -
  have a: "0 < i" if "Allow i r \<in> set tr" for i r
    using assms that by (auto dest!: bspec [where x = "Allow i r"])
  have b: "0 < i" if "MarkSuccess i \<in> set tr" for i
    using assms that by (auto dest!: bspec [where x = "MarkSuccess i"])
  have c: "0 < i" if "MarkFailed i \<in> set tr" for i
    using assms that by (auto dest!: bspec [where x = "MarkFailed i"])
  have d: "0 < i \<and> i < n" if "HandleRetry i l \<in> set tr" for i l
    using assms that by (auto dest!: bspec [where x = "HandleRetry i l"])
  have e: "0 \<le> i \<and> i < n \<and> (b \<longleftrightarrow> i + 1 \<ge> n)" if "RoundTrip i b \<in> set tr" for i b
    using assms that by (auto dest!: bspec [where x = "RoundTrip i b"])
  from a b c d e show ?thesis by blast
qed

text \<open>
  Claim C4. In a buffered request every call to the breaker (Allow, MarkSuccess, MarkFailed)
  is made at a loop index above 0, so the first attempt neither consults the breaker nor
  feeds it. Every transport call at an index above 0 comes after an Allow at that index that
  returned nil. When Allow returns an error at index i the loop ends there: the calls that
  follow are those of the classification - the breaker metric alone for ErrNotAllowed, else
  the failed classification (the failed metric unless the error is context-canceled, and
  MarkFailed) - and after them no transport call, breaker call or retry metric.
\<close>

theorem breaker_guards_only_retries:
  assumes "\<not> Stream e"
  shows "(\<forall>i r. Allow i r \<in> set (run en e n rp rq) \<longrightarrow> 0 < i) \<and>
         (\<forall>i. MarkSuccess i \<in> set (run en e n rp rq) \<longrightarrow> 0 < i) \<and>
         (\<forall>i. MarkFailed i \<in> set (run en e n rp rq) \<longrightarrow> 0 < i) \<and>
         gated {} (run en e n rp rq) \<and>
         abandoned (run en e n rp rq)"
proof -
  from assms obtain pre new post where tr: "run en e n rp rq = pre @ new @ post"
    and pre: "list_all quiet pre" and new: "loopTrace 0 n new" and post: "list_all quiet post"
    by (rule run_buffered)
  note qpre = quiet_props [OF pre] and qpost = quiet_props [OF post]
  note pos = breaker_calls_positive [OF loopTrace_inLoop [OF new]]
  have outside: "ev \<in> set new" if "ev \<in> set (run en e n rp rq)" "isBreakerCall ev" for ev
    using that tr qpre qpost by auto
  have a: "\<forall>i r. Allow i r \<in> set (run en e n rp rq) \<longrightarrow> 0 < i"
  proof (intro allI impI)
    fix i r assume "Allow i r \<in> set (run en e n rp rq)"
    then have "Allow i r \<in> set new" by (rule outside) simp
    with pos show "0 < i" by blast
  qed
  have b: "\<forall>i. MarkSuccess i \<in> set (run en e n rp rq) \<longrightarrow> 0 < i"
  proof (intro allI impI)
    fix i assume "MarkSuccess i \<in> set (run en e n rp rq)"
    then have "MarkSuccess i \<in> set new" by (rule outside) simp
    with pos show "0 < i" by blast
  qed
  have c: "\<forall>i. MarkFailed i \<in> set (run en e n rp rq) \<longrightarrow> 0 < i"
  proof (intro allI impI)
    fix i assume "MarkFailed i \<in> set (run en e n rp rq)"
    then have "MarkFailed i \<in> set new" by (rule outside) simp
    with pos show "0 < i" by blast
  qed
  have "gated {} (pre @ new @ post) = gated {} (new @ post)"
    using qpre by (intro gated_skip) blast
  with loopTrace_gated [OF new post, of "{}"] tr have d: "gated {} (run en e n rp rq)"
    by simp
  have "abandoned (pre @ new @ post) = abandoned (new @ post)"
    using qpre by (intro abandoned_skip) blast
  with loopTrace_abandoned [OF new post] tr have e: "abandoned (run en e n rp rq)"
    by simp
  from a b c d e show ?thesis by blast
qed

lemmas sample_defs = run_def handler_def attemptLoop.simps gate_eq attempt_eq relay_def
  doCopyBody_def copyBody_def writeError_def emit_def WriteHeader_def Let_def initial_def
  setXFFHeader_def failedCalls_def successCalls_def refusalCalls_def breakerCalls_def
  calm_def tripped_def failing_def httpEndpoint_def xffRequest_def splitLastColon_def
  header_Set_def errNotAllowed_def plainError_def body_Close_def getReplyMD_def
  header_Get_def ok200_def busy500_def assertionFailed_def

lemma run_tripped:
  "filter (\<lambda>ev. \<not> quiet ev) (run tripped httpEndpoint 5 [] xffRequest) =
     [RoundTrip 0 False, Allow 1 None, RoundTrip 1 False, HandleRetry 1 ''false'', MarkFailed 1,
      Allow 2 (Some errNotAllowed), HandleRetry 2 ''breaker'']"
  by (simp add: sample_defs quiet_def)

theorem breaker_guards_only_retries_witness:
  "\<not> Stream httpEndpoint \<and>
   gated {} (run tripped httpEndpoint 5 [] xffRequest) \<and>
   abandoned (run tripped httpEndpoint 5 [] xffRequest) \<and>
   filter (\<lambda>ev. \<not> quiet ev) (run tripped httpEndpoint 5 [] xffRequest) =
     [RoundTrip 0 False, Allow 1 None, RoundTrip 1 False, HandleRetry 1 ''false'', MarkFailed 1,
      Allow 2 (Some errNotAllowed), HandleRetry 2 ''breaker'']"
proof -
  have s: "\<not> Stream httpEndpoint" by (simp add: httpEndpoint_def)
  from breaker_guards_only_retries [OF s, of tripped 5 "[]" xffRequest] s run_tripped
  show ?thesis by blast
qed





section \<open>LastAttempt, DoneFunc and the relayed response\<close>













text \<open>
  Claim C2 on the code: one attempt, an upstream answer 500 that matches the retry condition,
  with a body read from the network. The loop closes the body of the response it is about
  to relay; status and headers reach the client, the body does not, and the copy fails on
  the closed body.
\<close>

theorem last_attempt_retriable_body_lost:
  "roundTrip failing 0 True = Inr busy500 \<and> judgeRetryRequired failing busy500 \<and>
   map_option content (Body busy500) = Some ''oops'' \<and>
   filter isRoundTrip (run failing httpEndpoint 1 [] xffRequest) = [RoundTrip 0 True] \<and>
   WStatus (snd (snd (handler failing httpEndpoint 1 [] xffRequest initial))) = [500] \<and>
   WHeader (snd (snd (handler failing httpEndpoint 1 [] xffRequest initial))) ''Content-Length'' =
     Some (Slice [''4'']) \<and>
   WBody (snd (snd (handler failing httpEndpoint 1 [] xffRequest initial))) = [] \<and>
   filter isDoneFunc (run failing httpEndpoint 1 [] xffRequest) =
     [DoneFunc (DoneErr errReadOnClosedBody)]"
  by (simp add: sample_defs)

text \<open>
  With a body whose Close is a no-op (as in the repository's tests) the same request relays
  status, headers and the whole body.
\<close>

lemma single_attempt_retriable_relay:
  assumes "\<not> Stream e" "readAllErr en = None" "ctxErr en 0 = None"
    "roundTrip en 0 True = Inr r" "judgeRetryRequired en r" "Body r = Some b"
    "handler en e 1 rp rq initial = (p, rq', s')"
  shows "filter isRoundTrip (events s') = [RoundTrip 0 True] \<and> WStatus s' = [StatusCode r] \<and>
         (\<forall>k v. RespHeader r k = Some v \<longrightarrow> WHeader s' k = Some v \<or> take 8 k = ''Trailer:'') \<and>
         WBody s' = fst (copyBody en (body_Close b)) \<and>
         (nopCloser b \<and> writeFault en = None \<longrightarrow> WBody s' = content b)"
  using assms
  by (auto simp add: handler_def attemptLoop.simps [of en 1 0] attemptLoop.simps [of en 1 1]
        gate_eq attempt_eq relay_def doCopyBody_def copyBody_def emit_def WriteHeader_def
        Let_def initial_def failedCalls_def body_Close_def addTrailers_def map_add_def
        split: option.splits prod.splits if_splits)

section \<open>Properties of the stream body tracker\<close>

lemma filter_id_update:
  "k < length ds \<Longrightarrow> \<not> ds ! k \<Longrightarrow>
     length (filter id (ds[k := True])) = Suc (length (filter id ds))"
proof (induction ds arbitrary: k)
  case Nil
  then show ?case by simp
next
  case (Cons d ds)
  then show ?case by (cases k) auto
qed

lemma tracked_fresh: "tracked fresh"
  by (simp add: tracked_def fresh_def)

lemma filter_id_le: "length (filter id ds) \<le> length ds"
  by simp

lemma tracked_step: "tracked t \<Longrightarrow> tracked (step c t)"
proof (cases c)
  case Wrap
  assume t: "tracked t"
  have "length (filter id (doneOnce t)) \<le> length (doneOnce t)" by simp
  with t Wrap show ?thesis
    by (auto simp add: tracked_def WrapBody_def RegisterBody_def)
next
  case (CloseBody k)
  assume t: "tracked t"
  show ?thesis
  proof (cases "k < length (doneOnce t) \<and> \<not> doneOnce t ! k")
    case False
    with t CloseBody show ?thesis by (auto simp add: Close_def)
  next
    case True
    then have "length (filter id ((doneOnce t)[k := True])) = Suc (length (filter id (doneOnce t)))"
      by (simp add: filter_id_update)
    with t CloseBody True show ?thesis
      by (auto simp add: tracked_def Close_def notifyBodyClosed_def finishOnceDo_def Let_def)
  qed
qed

lemma tracked_after: "tracked (after calls)"
proof -
  have "tracked t \<Longrightarrow> tracked (fold step calls t)" for t
    by (induction calls arbitrary: t) (simp_all add: tracked_step)
  from this [OF tracked_fresh] show ?thesis by (simp add: after_def)
qed

lemma Close_fires:
  assumes "finished (ctxValue (Close k t)) \<noteq> finished (ctxValue t)"
  shows "closedCount (ctxValue (Close k t)) \<ge> bodiesCount (ctxValue (Close k t)) \<and>
         bodiesCount (ctxValue (Close k t)) > 0 \<and>
         finished (ctxValue (Close k t)) = finished (ctxValue t) + 1 \<and>
         \<not> finishOnce (ctxValue t)"
  using assms
  by (auto simp add: Close_def notifyBodyClosed_def finishOnceDo_def Let_def split: if_splits)

lemma Close_again: "k < length (doneOnce t) \<Longrightarrow> doneOnce t ! k \<Longrightarrow> Close k t = t"
  by (simp add: Close_def)

lemma Close_marks: "k < length (doneOnce t) \<Longrightarrow> doneOnce (Close k t) ! k"
  by (auto simp add: Close_def notifyBodyClosed_def Let_def split: prod.splits)

text \<open>
  Claim C7. Whatever bodies are wrapped and closed on a stream context, in whatever order:
  the on-finish hooks have run at most once; a Close that makes them run leaves the closed
  counter at or above the number of registered bodies, of which there is at least one; once
  every registered body has been closed, and there is at least one, the hooks have run
  exactly once; and closing a wrapped body again changes neither the counters nor the
  hooks nor anything else of the tracker.
\<close>

theorem onFinish_exactly_once:
  "finished (ctxValue (after calls)) \<le> 1 \<and>
   (finished (ctxValue (Close k (after calls))) \<noteq> finished (ctxValue (after calls)) \<longrightarrow>
      closedCount (ctxValue (Close k (after calls))) \<ge> bodiesCount (ctxValue (Close k (after calls))) \<and>
      bodiesCount (ctxValue (Close k (after calls))) > 0 \<and>
      finished (ctxValue (after calls)) = 0 \<and>
      finished (ctxValue (Close k (after calls))) = 1) \<and>
   (doneOnce (after calls) \<noteq> [] \<and> list_all id (doneOnce (after calls)) \<longrightarrow>
      finished (ctxValue (after calls)) = 1) \<and>
   (k < length (doneOnce (after calls)) \<longrightarrow>
      Close k (Close k (after calls)) = Close k (after calls))"
proof -
  define t where "t = after calls"
  have t: "tracked t" unfolding t_def by (rule tracked_after)
  have a: "finished (ctxValue t) \<le> 1"
    using t by (simp add: tracked_def)
  have b: "closedCount (ctxValue (Close k t)) \<ge> bodiesCount (ctxValue (Close k t)) \<and>
      bodiesCount (ctxValue (Close k t)) > 0 \<and> finished (ctxValue t) = 0 \<and>
      finished (ctxValue (Close k t)) = 1"
    if "finished (ctxValue (Close k t)) \<noteq> finished (ctxValue t)"
    using Close_fires [OF that] t by (simp add: tracked_def)
  have c: "finished (ctxValue t) = 1" if "doneOnce t \<noteq> []" "list_all id (doneOnce t)"
  proof -
    from that(2) have "filter id (doneOnce t) = doneOnce t"
      by (simp add: list_all_iff)
    with t that(1) have "finishOnce (ctxValue t)"
      by (simp add: tracked_def)
    with t show ?thesis by (simp add: tracked_def)
  qed
  have d: "Close k (Close k t) = Close k t" if "k < length (doneOnce t)"
  proof -
    have "length (doneOnce (Close k t)) = length (doneOnce t)"
      by (auto simp add: Close_def notifyBodyClosed_def Let_def split: prod.splits)
    with that Close_marks [OF that] show ?thesis by (simp add: Close_again)
  qed
  from a b c d show ?thesis unfolding t_def by blast
qed

theorem onFinish_exactly_once_witness:
  "doneOnce (after [Wrap, Wrap, CloseBody 0, CloseBody 0]) = [True, False] \<and>
   finished (ctxValue (after [Wrap, Wrap, CloseBody 0, CloseBody 0])) = 0 \<and>
   closedCount (ctxValue (after [Wrap, Wrap, CloseBody 0, CloseBody 0])) = 1 \<and>
   finished (ctxValue (Close 1 (after [Wrap, Wrap, CloseBody 0, CloseBody 0]))) = 1 \<and>
   closedCount (ctxValue (Close 1 (after [Wrap, Wrap, CloseBody 0, CloseBody 0]))) = 2 \<and>
   bodiesCount (ctxValue (Close 1 (after [Wrap, Wrap, CloseBody 0, CloseBody 0]))) = 2 \<and>
   list_all id (doneOnce (after [Wrap, Wrap, CloseBody 0, CloseBody 1, CloseBody 1])) \<and>
   finished (ctxValue (after [Wrap, Wrap, CloseBody 0, CloseBody 1, CloseBody 1])) = 1 \<and>
   Close 1 (Close 1 (after [Wrap, Wrap, CloseBody 0, CloseBody 0])) =
     Close 1 (after [Wrap, Wrap, CloseBody 0, CloseBody 0])"
proof -
  have e: "after [Wrap, Wrap, CloseBody 0, CloseBody 0] =
      \<lparr>ctxValue = \<lparr>bodiesCount = 2, closedCount = 1, finishOnce = False, finished = 0\<rparr>,
       doneOnce = [True, False]\<rparr>"
    by (simp add: after_def fresh_def WrapBody_def RegisterBody_def Close_def
          notifyBodyClosed_def finishOnceDo_def Let_def)
  have f: "after [Wrap, Wrap, CloseBody 0, CloseBody 1, CloseBody 1] =
      \<lparr>ctxValue = \<lparr>bodiesCount = 2, closedCount = 2, finishOnce = True, finished = 1\<rparr>,
       doneOnce = [True, True]\<rparr>"
    by (simp add: after_def fresh_def WrapBody_def RegisterBody_def Close_def
          notifyBodyClosed_def finishOnceDo_def Let_def)
  have g: "Close 1 (after [Wrap, Wrap, CloseBody 0, CloseBody 0]) =
      \<lparr>ctxValue = \<lparr>bodiesCount = 2, closedCount = 2, finishOnce = True, finished = 1\<rparr>,
       doneOnce = [True, True]\<rparr>"
    by (simp add: e Close_def notifyBodyClosed_def finishOnceDo_def Let_def)
  have k: "1 < length (doneOnce (after [Wrap, Wrap, CloseBody 0, CloseBody 0]))"
    by (simp add: e)
  from onFinish_exactly_once [of "[Wrap, Wrap, CloseBody 0, CloseBody 0]" 1] k
  have again: "Close 1 (Close 1 (after [Wrap, Wrap, CloseBody 0, CloseBody 0])) =
     Close 1 (after [Wrap, Wrap, CloseBody 0, CloseBody 0])"
    by blast
  have h1: "doneOnce (after [Wrap, Wrap, CloseBody 0, CloseBody 0]) = [True, False]"
    and h2: "finished (ctxValue (after [Wrap, Wrap, CloseBody 0, CloseBody 0])) = 0"
    and h3: "closedCount (ctxValue (after [Wrap, Wrap, CloseBody 0, CloseBody 0])) = 1"
    by (simp_all add: e)
  have h4: "finished (ctxValue (Close 1 (after [Wrap, Wrap, CloseBody 0, CloseBody 0]))) = 1"
    and h5: "closedCount (ctxValue (Close 1 (after [Wrap, Wrap, CloseBody 0, CloseBody 0]))) = 2"
    and h6: "bodiesCount (ctxValue (Close 1 (after [Wrap, Wrap, CloseBody 0, CloseBody 0]))) = 2"
    using g by simp_all
  have h7: "list_all id (doneOnce (after [Wrap, Wrap, CloseBody 0, CloseBody 1, CloseBody 1]))"
    and h8: "finished (ctxValue (after [Wrap, Wrap, CloseBody 0, CloseBody 1, CloseBody 1])) = 1"
    using f by simp_all
  from h1 h2 h3 h4 h5 h6 h7 h8 again show ?thesis by blast
qed

section \<open>Properties of Update\<close>

lemma buildEndpoint_frame:
  assumes "buildEndpoint b e ms st = (r, st1)"
  shows "router st1 = router st \<and> retired st1 = retired st"
  using assms
  by (auto simp add: buildEndpoint_def closeOnError_def Let_def split: option.splits sum.splits)

lemma buildEndpoint_Inl:
  assumes "buildEndpoint b e ms st = (Inl er, st1)"
  shows "breakers st1 = breakers st \<and>
         (clients st1 = clients st \<and> closedClients st1 = closedClients st \<or>
          clients st1 = clients st + 1 \<and> closedClients st1 = closedClients st @ [clients st])"
  using assms
  by (auto simp add: buildEndpoint_def closeOnError_def Let_def split: option.splits sum.splits)

lemma buildEndpoint_Inr:
  assumes "buildEndpoint b e ms st = (Inr (h, closer), st1)"
  shows "clients st1 = clients st + 1 \<and> closer = clients st \<and>
         closedClients st1 = closedClients st \<and>
         breakers st1 = breakers st @ [NewBreaker 4 5 10] \<and>
         retryBreaker h = length (breakers st) \<and> hEndpoint h = e"
  using assms
  by (auto simp add: buildEndpoint_def closeOnError_def Let_def split: option.splits sum.splits)

lemma buildAll_closers:
  assumes "buildAll b ms es routes defers st = (r, routes', defers', st')"
  shows "router st' = router st \<and> retired st' = retired st \<and> clients st \<le> clients st' \<and>
         (\<exists>ds ys. defers' = ds @ defers \<and> closedClients st' = closedClients st @ ys \<and>
                  set (ds @ ys) = {clients st..<clients st'} \<and> distinct (ds @ ys) \<and>
                  (r = None \<longrightarrow> ys = []))"
  using assms
proof (induction es arbitrary: routes defers st)
  case Nil
  then show ?case by simp
next
  case (Cons e es)
  obtain res st1 where be: "buildEndpoint b e ms st = (res, st1)"
    by (cases "buildEndpoint b e ms st")
  note frame = buildEndpoint_frame [OF be]
  have fin: ?case
    if "defers' = ds @ defers" "closedClients st' = closedClients st @ ys"
      "set (ds @ ys) = {clients st..<clients st'}" "distinct (ds @ ys)" "r = None \<longrightarrow> ys = []"
      "clients st \<le> clients st'" "router st' = router st" "retired st' = retired st"
    for ds ys
    using that by blast
  show ?case
  proof (cases res)
    case (Inl er)
    with Cons.prems be have r: "r = Some er" "defers' = defers" "st' = st1" by simp_all
    from buildEndpoint_Inl [OF be [unfolded Inl]] consider
      "clients st1 = clients st" "closedClients st1 = closedClients st"
      | "clients st1 = clients st + 1" "closedClients st1 = closedClients st @ [clients st]"
      by blast
    then show ?thesis
    proof cases
      case 1
      show ?thesis by (rule fin [of "[]" "[]"]) (use r frame 1 in simp_all)
    next
      case 2
      show ?thesis by (rule fin [of "[]" "[clients st]"]) (use r frame 2 in simp_all)
    qed
  next
    case (Inr hc)
    obtain h closer where hc: "hc = (h, closer)" by (cases hc)
    note ok = buildEndpoint_Inr [OF be [unfolded Inr hc]]
    show ?thesis
    proof (cases "routerHandle b routes e")
      case (Some er)
      with Cons.prems be Inr hc
      have r: "r = Some er" "defers' = closer # defers" "st' = st1" by simp_all
      show ?thesis by (rule fin [of "[closer]" "[]"]) (use r frame ok in simp_all)
    next
      case None
      with Cons.prems be Inr hc
      have rec: "buildAll b ms es
          (routes @ [\<lparr>rPath = Path e, rMethod = Method e, rHost = Host e,
                      rHandler = h, rCloser = closer\<rparr>]) (closer # defers) st1 =
          (r, routes', defers', st')"
        by simp
      from Cons.IH [OF rec] obtain ds ys where ih:
        "router st' = router st1" "retired st' = retired st1" "clients st1 \<le> clients st'"
        "defers' = ds @ closer # defers" "closedClients st' = closedClients st1 @ ys"
        "set (ds @ ys) = {clients st1..<clients st'}" "distinct (ds @ ys)" "r = None \<longrightarrow> ys = []"
        by blast
      have s: "set ((ds @ [closer]) @ ys) = {clients st..<clients st'}"
        using ih(3,6) ok by auto
      have "closer \<notin> set (ds @ ys)"
        using ih(6) ok by simp
      then have d: "distinct ((ds @ [closer]) @ ys)"
        using ih(7) by auto
      show ?thesis by (rule fin [of "ds @ [closer]" ys]) (use ih frame ok s d in simp_all)
    qed
  qed
qed

lemma buildAll_routes:
  assumes "buildAll b ms es routes defers st = (None, routes', defers', st')"
  shows "\<exists>new. routes' = routes @ new \<and>
           map (hEndpoint \<circ> rHandler) new = es \<and>
           map rCloser new = [clients st..<clients st'] \<and>
           map (retryBreaker \<circ> rHandler) new = [length (breakers st)..<length (breakers st')] \<and>
           breakers st' = breakers st @ replicate (length es) (NewBreaker 4 5 10)"
  using assms
proof (induction es arbitrary: routes defers st)
  case Nil
  then show ?case by simp
next
  case (Cons e es)
  obtain res st1 where be: "buildEndpoint b e ms st = (res, st1)"
    by (cases "buildEndpoint b e ms st")
  have "\<exists>h closer. res = Inr (h, closer)"
  proof (cases res)
    case (Inl er)
    with Cons.prems be show ?thesis by simp
  next
    case (Inr hc)
    then show ?thesis by (cases hc) simp
  qed
  then obtain h closer where res: "res = Inr (h, closer)" by blast
  note ok = buildEndpoint_Inr [OF be [unfolded res]]
  let ?r = "\<lparr>rPath = Path e, rMethod = Method e, rHost = Host e, rHandler = h, rCloser = closer\<rparr>"
  have rec: "buildAll b ms es (routes @ [?r]) (closer # defers) st1 =
      (None, routes', defers', st')"
  proof (cases "routerHandle b routes e")
    case (Some er)
    with Cons.prems be res show ?thesis by simp
  next
    case None
    with Cons.prems be res show ?thesis by simp
  qed
  from Cons.IH [OF rec] obtain new where ih:
    "routes' = (routes @ [?r]) @ new"
    "map (hEndpoint \<circ> rHandler) new = es"
    "map rCloser new = [clients st1..<clients st']"
    "map (retryBreaker \<circ> rHandler) new = [length (breakers st1)..<length (breakers st')]"
    "breakers st' = breakers st1 @ replicate (length es) (NewBreaker 4 5 10)"
    by blast
  from buildAll_closers [OF rec] have mono: "clients st1 \<le> clients st'" by blast
  have ok1: "clients st1 = Suc (clients st)" and ok2: "closer = clients st"
    and ok4: "breakers st1 = breakers st @ [NewBreaker 4 5 10]"
    and ok5: "retryBreaker h = length (breakers st)" and ok6: "hEndpoint h = e"
    using ok by simp_all
  have a: "routes' = routes @ (?r # new)" using ih(1) by simp
  have b: "map (hEndpoint \<circ> rHandler) (?r # new) = e # es" using ih(2) ok6 by simp
  have ltc: "clients st < clients st'" using ok1 mono by simp
  have "map rCloser (?r # new) = clients st # [Suc (clients st)..<clients st']"
    using ih(3) ok1 ok2 by simp
  also have "\<dots> = [clients st..<clients st']"
    by (rule upt_conv_Cons [OF ltc, symmetric])
  finally have c: "map rCloser (?r # new) = [clients st..<clients st']" .
  have e1: "length (breakers st1) = Suc (length (breakers st))" using ok4 by simp
  have lt: "length (breakers st) < length (breakers st')" using ih(5) ok4 by simp
  have "map (retryBreaker \<circ> rHandler) (?r # new) =
      length (breakers st) # [Suc (length (breakers st))..<length (breakers st')]"
    using ih(4) e1 ok5 by simp
  also have "\<dots> = [length (breakers st)..<length (breakers st')]"
    by (rule upt_conv_Cons [OF lt, symmetric])
  finally have d: "map (retryBreaker \<circ> rHandler) (?r # new) =
      [length (breakers st)..<length (breakers st')]" .
  have f: "breakers st' = breakers st @ replicate (length (e # es)) (NewBreaker 4 5 10)"
    using ih(5) ok4 by (simp add: replicate_app_Cons_same)
  show ?case
    by (intro exI [of _ "?r # new"] conjI) (rule a b c d f)+
qed

lemma runDefers_Some:
  "runDefers defers (Some er) st = st\<lparr>closedClients := closedClients st @ defers\<rparr>"
  unfolding runDefers_def
  by (induction defers arbitrary: st) (simp_all add: closeOnError_def)

lemma runDefers_None: "runDefers defers None st = st"
  unfolding runDefers_def
  by (induction defers arbitrary: st) (simp_all add: closeOnError_def)

text \<open>
  Claim C6. When Update returns an error the route table and the list of tables handed over
  for closing are as before, and every client made for the rejected configuration - those
  of the endpoints already built, and the one of an endpoint whose construction failed after
  its client was made - has been closed, each exactly once. When Update returns nil the
  table holds a route for each endpoint of the configuration, in order, with the clients
  made for them as closers; the previous table has been handed to tryCloseRouter; and no
  client has been closed.
\<close>

theorem Update_rejects_or_swaps:
  assumes "Update b c st = (res, st')"
  shows "(res \<noteq> None \<longrightarrow>
            router st' = router st \<and> retired st' = retired st \<and>
            (\<exists>xs. closedClients st' = closedClients st @ xs \<and>
                  set xs = {clients st..<clients st'} \<and> distinct xs)) \<and>
         (res = None \<longrightarrow>
            map (hEndpoint \<circ> rHandler) (router st') = Endpoints c \<and>
            map rCloser (router st') = [clients st..<clients st'] \<and>
            retired st' = retired st @ [router st] \<and>
            closedClients st' = closedClients st)"
proof -
  obtain r routes defers st1 where ba:
    "buildAll b (GatewayMiddlewares c) (Endpoints c) [] [] st = (r, routes, defers, st1)"
    by (cases "buildAll b (GatewayMiddlewares c) (Endpoints c) [] [] st") auto
  from buildAll_closers [OF ba] obtain ds ys where inv:
    "router st1 = router st" "retired st1 = retired st" "defers = ds @ []"
    "closedClients st1 = closedClients st @ ys" "set (ds @ ys) = {clients st..<clients st1}"
    "distinct (ds @ ys)" "r = None \<longrightarrow> ys = []"
    by blast
  show ?thesis
  proof (cases r)
    case (Some er)
    with assms ba have res: "res = Some er" and st': "st' = runDefers defers (Some er) st1"
      by (auto simp add: Update_def)
    from st' inv have "router st' = router st" "retired st' = retired st"
      "closedClients st' = closedClients st @ (ys @ ds)" "clients st' = clients st1"
      by (simp_all add: runDefers_Some)
    moreover from inv have "set (ys @ ds) = {clients st..<clients st1}" "distinct (ys @ ds)"
      by auto
    ultimately show ?thesis using res by auto
  next
    case None
    with assms ba have res: "res = None"
      and st': "st' = tryCloseRouter (router st1) (st1\<lparr>router := routes\<rparr>)"
      by (auto simp add: Update_def runDefers_None Let_def)
    from buildAll_routes [OF ba [unfolded None]] obtain new where new:
      "routes = [] @ new" "map (hEndpoint \<circ> rHandler) new = Endpoints c"
      "map rCloser new = [clients st..<clients st1]"
      by blast
    from st' inv None new res show ?thesis
      by (simp add: tryCloseRouter_def)
  qed
qed

lemma Update_sound: "Update sound twoEndpoints started = (None, serving)"
proof -
  have "fst (Update sound twoEndpoints started) = None" by code_simp
  then show ?thesis by (simp add: serving_def prod_eq_iff)
qed

theorem Update_rejects_or_swaps_witness:
  "Update sound twoEndpoints started = (None, serving) \<and>
   map (hEndpoint \<circ> rHandler) (router serving) = [httpEndpoint, otherEndpoint] \<and>
   map rCloser (router serving) = [0, 1] \<and>
   retired serving = [[]] \<and> closedClients serving = [] \<and>
   fst (Update faulty twoEndpoints serving) = Some (plainError ''bad options'') \<and>
   router (snd (Update faulty twoEndpoints serving)) = router serving \<and>
   retired (snd (Update faulty twoEndpoints serving)) = retired serving \<and>
   closedClients (snd (Update faulty twoEndpoints serving)) = [3, 2] \<and>
   fst (Update rejecting twoEndpoints serving) = Some (plainError ''duplicate route'') \<and>
   router (snd (Update rejecting twoEndpoints serving)) = router serving \<and>
   retired (snd (Update rejecting twoEndpoints serving)) = retired serving \<and>
   closedClients (snd (Update rejecting twoEndpoints serving)) = [3, 2]"
proof -
  note A = Update_rejects_or_swaps [OF Update_sound]
  have n: "clients serving = 2" by code_simp
  from A have a1: "map (hEndpoint \<circ> rHandler) (router serving) = [httpEndpoint, otherEndpoint]"
    by (simp add: twoEndpoints_def)
  from A n have a2: "map rCloser (router serving) = [0, 1]"
    by (simp add: started_def upt_conv_Cons)
  from A have a3: "retired serving = [[]]" and a4: "closedClients serving = []"
    by (simp_all add: started_def)
  have f: "Update faulty twoEndpoints serving =
      (fst (Update faulty twoEndpoints serving), snd (Update faulty twoEndpoints serving))"
    by simp
  have fe: "fst (Update faulty twoEndpoints serving) = Some (plainError ''bad options'')"
    by code_simp
  have fc: "closedClients (snd (Update faulty twoEndpoints serving)) = [3, 2]"
    by code_simp
  from Update_rejects_or_swaps [OF f] fe
  have b1: "router (snd (Update faulty twoEndpoints serving)) = router serving"
    and b2: "retired (snd (Update faulty twoEndpoints serving)) = retired serving"
    by simp_all
  have g: "Update rejecting twoEndpoints serving =
      (fst (Update rejecting twoEndpoints serving), snd (Update rejecting twoEndpoints serving))"
    by simp
  have ge: "fst (Update rejecting twoEndpoints serving) = Some (plainError ''duplicate route'')"
    by code_simp
  have gc: "closedClients (snd (Update rejecting twoEndpoints serving)) = [3, 2]"
    by code_simp
  from Update_rejects_or_swaps [OF g] ge
  have c1: "router (snd (Update rejecting twoEndpoints serving)) = router serving"
    and c2: "retired (snd (Update rejecting twoEndpoints serving)) = retired serving"
    by simp_all
  from Update_sound a1 a2 a3 a4 fe b1 b2 fc ge c1 c2 gc show ?thesis by blast
qed

section \<open>The retry breaker of an endpoint\<close>

lemma onBreaker_frame:
  "length (breakers (onBreaker f h st)) = length (breakers st) \<and>
   (k \<noteq> retryBreaker h \<longrightarrow> breakers (onBreaker f h st) ! k = breakers st ! k)"
  by (simp add: onBreaker_def)

lemma breakerCall_frame:
  "length (breakers (breakerCall h ev st)) = length (breakers st) \<and>
   (k \<noteq> retryBreaker h \<longrightarrow> breakers (breakerCall h ev st) ! k = breakers st ! k)"
  by (cases ev) (simp_all add: onBreaker_frame)

lemma serveBreaker_frame:
  "length (breakers (serveBreaker h tr st)) = length (breakers st) \<and>
   (k \<noteq> retryBreaker h \<longrightarrow> breakers (serveBreaker h tr st) ! k = breakers st ! k)"
  unfolding serveBreaker_def
  by (induction tr arbitrary: st) (simp_all add: breakerCall_frame)

lemma breakerAllow_other:
  assumes "retryBreaker h' \<noteq> retryBreaker h"
  shows "breakerAllow draw h' (serveBreaker h tr st) = breakerAllow draw h' st"
  using assms by (simp add: breakerAllow_def serveBreaker_frame)

lemma Update_breakers:
  assumes "Update b c st = (None, st')"
  shows "map (retryBreaker \<circ> rHandler) (router st') =
           [length (breakers st)..<length (breakers st')] \<and>
         breakers st' = breakers st @ replicate (length (Endpoints c)) (NewBreaker 4 5 10)"
proof -
  obtain r routes defers st1 where ba:
    "buildAll b (GatewayMiddlewares c) (Endpoints c) [] [] st = (r, routes, defers, st1)"
    by (cases "buildAll b (GatewayMiddlewares c) (Endpoints c) [] [] st") auto
  have r: "r = None"
  proof (cases r)
    case None
    then show ?thesis .
  next
    case (Some er)
    with assms ba show ?thesis by (simp add: Update_def)
  qed
  with assms ba have st': "st' = tryCloseRouter (router st1) (st1\<lparr>router := routes\<rparr>)"
    by (simp add: Update_def runDefers_None Let_def)
  from buildAll_routes [OF ba [unfolded r]] obtain new where new:
    "routes = [] @ new"
    "map (retryBreaker \<circ> rHandler) new = [length (breakers st)..<length (breakers st1)]"
    "breakers st1 = breakers st @ replicate (length (Endpoints c)) (NewBreaker 4 5 10)"
    by blast
  from st' new show ?thesis by (simp add: tryCloseRouter_def)
qed

text \<open>
  Claim C1, as the code has it. The retry breaker (success ratio 0.8, minimum request count
  10) is made by buildEndpoint, one for each endpoint handler, and is not shared: after a
  successful Update the handlers of two different routes of the table have different
  breakers, the breaker of each is new (it is none of those that existed before the Update,
  and it has recorded nothing), and whatever calls a request served by one handler makes on
  its breaker, what Allow() returns to the other handler is the same as before.
\<close>

theorem breaker_per_endpoint:
  assumes "Update b c st = (None, st')"
    and "i < length (router st')" and "j < length (router st')" and "i \<noteq> j"
  shows "retryBreaker (rHandler (router st' ! i)) \<noteq> retryBreaker (rHandler (router st' ! j)) \<and>
         length (breakers st) \<le> retryBreaker (rHandler (router st' ! i)) \<and>
         retryBreaker (rHandler (router st' ! i)) < length (breakers st') \<and>
         breakers st' ! retryBreaker (rHandler (router st' ! i)) = NewBreaker 4 5 10 \<and>
         breakerAllow draw (rHandler (router st' ! j))
             (serveBreaker (rHandler (router st' ! i)) tr st') =
           breakerAllow draw (rHandler (router st' ! j)) st'"
proof -
  let ?n = "length (breakers st)"
  from Update_breakers [OF assms(1)]
  have m: "map (retryBreaker \<circ> rHandler) (router st') = [?n..<length (breakers st')]"
    and bs: "breakers st' = breakers st @ replicate (length (Endpoints c)) (NewBreaker 4 5 10)"
    by simp_all
  from m have "length (map (retryBreaker \<circ> rHandler) (router st')) =
      length [?n..<length (breakers st')]"
    by simp
  then have len: "length (router st') = length (breakers st') - ?n" by simp
  have at: "retryBreaker (rHandler (router st' ! k)) = ?n + k" if "k < length (router st')" for k
  proof -
    from that have "retryBreaker (rHandler (router st' ! k)) =
        map (retryBreaker \<circ> rHandler) (router st') ! k"
      by simp
    also from that len have "\<dots> = ?n + k" by (simp only: m) simp
    finally show ?thesis .
  qed
  have i: "retryBreaker (rHandler (router st' ! i)) = ?n + i"
    and j: "retryBreaker (rHandler (router st' ! j)) = ?n + j"
    using at assms(2,3) by simp_all
  have ne: "retryBreaker (rHandler (router st' ! j)) \<noteq> retryBreaker (rHandler (router st' ! i))"
    using i j assms(4) by simp
  have lt: "retryBreaker (rHandler (router st' ! i)) < length (breakers st')"
    using i len assms(2) by simp
  from bs have "length (breakers st') = ?n + length (Endpoints c)" by simp
  with len assms(2) have "i < length (Endpoints c)" by simp
  then have new: "breakers st' ! retryBreaker (rHandler (router st' ! i)) = NewBreaker 4 5 10"
    by (simp only: i bs) (simp add: nth_append)
  from ne i lt new breakerAllow_other [OF ne, of draw tr st'] show ?thesis by simp
qed

theorem breaker_per_endpoint_witness:
  "Update sound twoEndpoints started = (None, serving) \<and>
   (0::nat) < length (router serving) \<and> (1::nat) < length (router serving) \<and> (0::nat) \<noteq> 1 \<and>
   retryBreaker firstHandler \<noteq> retryBreaker secondHandler \<and>
   breakers serving ! retryBreaker firstHandler = NewBreaker 4 5 10 \<and>
   breakerAllow True secondHandler (serveBreaker firstHandler fiveFailures serving) =
     breakerAllow True secondHandler serving"
proof -
  have l: "length (router serving) = 2" by code_simp
  then have l0: "0 < length (router serving)" and l1: "1 < length (router serving)"
    by simp_all
  have d: "(0::nat) \<noteq> 1" by simp
  from breaker_per_endpoint [OF Update_sound l0 l1 d, of True fiveFailures]
  have "retryBreaker firstHandler \<noteq> retryBreaker secondHandler"
    "breakers serving ! retryBreaker firstHandler = NewBreaker 4 5 10"
    "breakerAllow True secondHandler (serveBreaker firstHandler fiveFailures serving) =
       breakerAllow True secondHandler serving"
    unfolding firstHandler_def secondHandler_def by blast+
  with Update_sound l0 l1 d show ?thesis by blast
qed

text \<open>
  Against the claim as stated: ten failed retries recorded through the first endpoint's
  handler make its own breaker refuse, and leave the Allow() decision for the second
  endpoint's handler as it was.
\<close>

theorem breaker_not_shared:
  "length (filter isBreakerCall fiveFailures) = 20 \<and>
   breakerAllow True firstHandler serving = None \<and>
   breakerAllow True firstHandler (serveBreaker firstHandler fiveFailures serving) =
     Some errNotAllowed \<and>
   breakerAllow True secondHandler serving = None \<and>
   breakerAllow True secondHandler (serveBreaker firstHandler fiveFailures serving) = None \<and>
   breakerAllow False secondHandler (serveBreaker firstHandler fiveFailures serving) = None"
  by code_simp

end
